theory Spec2Isabelle
  imports Complex_Main
begin

section \<open>Python values and exceptions used by \<open>stagyydata.py\<close>\<close>

text \<open>
  Exceptions of the source are values. \<open>ValueError\<close> carries the message the source
  gives it (the empty string where the interpreter raises it). An exception of any
  other class, which only numpy can raise here, is \<open>OtherError\<close> with the name of
  its class.
\<close>

datatype pyerr =
    IndexError
  | KeyError
  | TypeError
  | OverflowError
  | RecursionError
  | ValueError string
  | OtherError string

text \<open>
  The module-level sentinel \<open>UNDETERMINED = object()\<close> makes every lazily computed
  attribute three-valued: not yet determined, determined to be \<open>None\<close>, or a value.
\<close>

datatype 'a lazy = UNDETERMINED | PyNone | Val 'a

text \<open>\<open>x is UNDETERMINED\<close>\<close>

fun is_undetermined :: "'a lazy \<Rightarrow> bool" where
  "is_undetermined UNDETERMINED = True"
| "is_undetermined v = False"

text \<open>
  List subscription \<open>xs[i]\<close> with an integer: indices from \<open>-len(xs)\<close> to \<open>-1\<close>
  count from the end, everything outside \<open>-len(xs) .. len(xs) - 1\<close> raises IndexError.
\<close>

definition norm_index :: "nat \<Rightarrow> int \<Rightarrow> nat option" where
  "norm_index n i =
     (if 0 \<le> i \<and> i < int n then Some (nat i)
      else if i < 0 \<and> - int n \<le> i then Some (nat (int n + i))
      else None)"

definition list_getitem :: "'a list \<Rightarrow> int \<Rightarrow> pyerr + 'a" where
  "list_getitem xs i =
     (case norm_index (length xs) i of
        None \<Rightarrow> Inl IndexError
      | Some j \<Rightarrow> Inr (xs ! j))"

text \<open>\<open>list.insert(idx, v)\<close> for \<open>0 \<le> idx \<le> len\<close>, the only way the source calls it.\<close>

definition list_insert :: "nat \<Rightarrow> 'a \<Rightarrow> 'a list \<Rightarrow> 'a list" where
  "list_insert idx v xs = take idx xs @ v # drop idx xs"

text \<open>
  \<open>bisect.bisect_left(a, x)\<close> of the standard library, as its pure-Python definition:
  \<^verbatim>\<open>
  lo, hi = 0, len(a)
  while lo < hi:
      mid = (lo + hi) // 2
      if a[mid] < x: lo = mid + 1
      else: hi = mid
  return lo
  \<close>
\<close>

function bisect_loop :: "int list \<Rightarrow> int \<Rightarrow> nat \<Rightarrow> nat \<Rightarrow> nat" where
  "bisect_loop a x lo hi =
     (if lo < hi then
        (let mid = (lo + hi) div 2 in
         if a ! mid < x then bisect_loop a x (mid + 1) hi
         else bisect_loop a x lo mid)
      else lo)"
  by pat_completeness auto
termination
  by (relation "measure (\<lambda>(a, x, lo, hi). hi - lo)") auto

declare bisect_loop.simps [simp del]

definition bisect_left :: "int list \<Rightarrow> int \<Rightarrow> nat" where
  "bisect_left a x = bisect_loop a x 0 (length a)"

section \<open>\<open>_Indexes\<close>: the isnap to istep correspondence\<close>

text \<open>
  \<open>_Indexes.__init__\<close> builds \<open>_nlst = 400\<close> empty lists twice: \<open>self.isnap\<close> holds
  the snapshot numbers of each bucket, \<open>self.istep\<close> the step numbers at the same
  positions. A stored step number is an integer or \<open>None\<close> (a snapshot known to be
  missing), hence \<open>int option\<close>.
\<close>

record Indexes =
  nlst :: int
  isnap_lists :: "int list list"
  istep_lists :: "int option list list"

definition Indexes_init :: Indexes where
  "Indexes_init =
     \<lparr> nlst = 400,
       isnap_lists = replicate 400 [],
       istep_lists = replicate 400 [] \<rparr>"

text \<open>
  \<open>_isnap_idx\<close>: \<open>super_idx = isnap // (100000 // self._nlst)\<close> (floor division, as
  \<open>div\<close> on \<open>int\<close>), then \<open>self.isnap[super_idx]\<close>, which raises IndexError outside
  the list of buckets, then the bisection and the presence test.
\<close>

definition isnap_idx :: "Indexes \<Rightarrow> int \<Rightarrow> pyerr + (int \<times> nat \<times> bool)" where
  "isnap_idx ix isnap =
     (let super_idx = isnap div (100000 div nlst ix) in
      case list_getitem (isnap_lists ix) super_idx of
        Inl e \<Rightarrow> Inl e
      | Inr bucket \<Rightarrow>
          (let idx = bisect_left bucket isnap in
           Inr (super_idx, idx, idx < length bucket \<and> bucket ! idx = isnap)))"

text \<open>\<open>get_istep\<close> returns the stored step number, or the sentinel.\<close>

definition get_istep :: "Indexes \<Rightarrow> int \<Rightarrow> pyerr + int lazy" where
  "get_istep ix isnap =
     (case isnap_idx ix isnap of
        Inl e \<Rightarrow> Inl e
      | Inr (super_idx, idx, present) \<Rightarrow>
          if present then
            (case list_getitem (istep_lists ix) super_idx of
               Inl e \<Rightarrow> Inl e
             | Inr steps_bucket \<Rightarrow>
                 (case list_getitem steps_bucket (int idx) of
                    Inl e \<Rightarrow> Inl e
                  | Inr None \<Rightarrow> Inr PyNone
                  | Inr (Some istep) \<Rightarrow> Inr (Val istep)))
          else Inr UNDETERMINED)"

text \<open>
  \<open>insert\<close> mutates the two bucket lists in place when the snapshot number is not
  present; the buckets are distinct list objects, so only that bucket changes.
\<close>

definition bucket_update :: "'a list list \<Rightarrow> int \<Rightarrow> ('a list \<Rightarrow> 'a list) \<Rightarrow> pyerr + 'a list list" where
  "bucket_update bs super_idx f =
     (case norm_index (length bs) super_idx of
        None \<Rightarrow> Inl IndexError
      | Some j \<Rightarrow> Inr (bs[j := f (bs ! j)]))"

definition insert_idx :: "Indexes \<Rightarrow> int \<Rightarrow> int option \<Rightarrow> pyerr + Indexes" where
  "insert_idx ix isnap istep =
     (case isnap_idx ix isnap of
        Inl e \<Rightarrow> Inl e
      | Inr (super_idx, idx, present) \<Rightarrow>
          if present then Inr ix
          else
            (case bucket_update (isnap_lists ix) super_idx (list_insert idx isnap) of
               Inl e \<Rightarrow> Inl e
             | Inr snaps' \<Rightarrow>
                 (case bucket_update (istep_lists ix) super_idx (list_insert idx istep) of
                    Inl e \<Rightarrow> Inl e
                  | Inr steps' \<Rightarrow>
                      Inr (ix\<lparr> isnap_lists := snaps', istep_lists := steps' \<rparr>))))"

text \<open>
  A sequence of \<open>insert\<close> calls, stopped by the first exception. Every index the
  program holds is the result of such a sequence on the index \<open>__init__\<close> built.
\<close>

fun insert_all :: "Indexes \<Rightarrow> (int \<times> int option) list \<Rightarrow> pyerr + Indexes" where
  "insert_all ix [] = Inr ix"
| "insert_all ix ((isnap, istep) # rest) =
     (case insert_idx ix isnap istep of
        Inl e \<Rightarrow> Inl e
      | Inr ix' \<Rightarrow> insert_all ix' rest)"

text \<open>The value \<open>get_istep\<close> returns for a stored step number.\<close>

fun lazy_of :: "int option \<Rightarrow> int lazy" where
  "lazy_of None = PyNone"
| "lazy_of (Some istep) = Val istep"

subsection \<open>Proof vocabulary for the index\<close>

text \<open>
  The snapshot numbers the 400 buckets can hold, the bucket a snapshot number in that
  range selects, the representation invariant, and the finite map an index stands for.
\<close>

definition in_range :: "int \<Rightarrow> bool" where
  "in_range k = (- 100000 \<le> k \<and> k < 100000)"

definition bucket_of :: "int \<Rightarrow> nat" where
  "bucket_of k = (if 0 \<le> k then nat (k div 250) else nat (400 + k div 250))"

definition wf_index :: "Indexes \<Rightarrow> bool" where
  "wf_index ix =
     (nlst ix = 400 \<and> length (isnap_lists ix) = 400 \<and> length (istep_lists ix) = 400 \<and>
      (\<forall>j<400. sorted_wrt (<) (isnap_lists ix ! j) \<and>
                length (istep_lists ix ! j) = length (isnap_lists ix ! j)))"

definition stored :: "Indexes \<Rightarrow> int \<Rightarrow> int option option" where
  "stored ix k =
     map_of (zip (isnap_lists ix ! bucket_of k) (istep_lists ix ! bucket_of k)) k"

section \<open>Keys of the registries\<close>

text \<open>
  \<open>dataset.steps[key]\<close> and \<open>dataset.snaps[key]\<close> accept any Python object. The
  kinds the source distinguishes: \<open>None\<close>, an integer, a float (a finite one is the
  rational number it denotes; NaN and the infinities apart), a string (of code points
  below 256), a slice with integer or absent components, and any other hashable
  object that has no \<open>start\<close> and that \<open>int\<close> refuses with TypeError, such as
  the sentinel \<open>UNDETERMINED\<close>.
\<close>

datatype key =
    KNone
  | KInt int
  | KFloat rat
  | KNaN
  | KInf
  | KStr string
  | KObj
  | KSlice "int option" "int option" "int option"

text \<open>
  \<open>int(s)\<close> for a string, in the Python versions the package declares (3.3 to 3.5).
  A character of a key is a code point below 256. First every code point above 127
  that is a Unicode space (below 256: U+0085 and U+00A0) is replaced by a blank and
  every one that is a Unicode decimal digit by its ASCII digit (there is none below
  256); the other code points stay. The parser then skips the whitespace of C (code
  points 9 to 13 and 32) on both sides, allows one sign, and wants at least one
  ASCII decimal digit and nothing else; anything else raises ValueError.
\<close>

definition py_isspace :: "char \<Rightarrow> bool" where
  "py_isspace c = ((of_char c :: nat) \<in> {9, 10, 11, 12, 13, 32})"

definition unicode_isspace :: "char \<Rightarrow> bool" where
  "unicode_isspace c = ((of_char c :: nat) \<in> {133, 160})"

definition to_ascii_char :: "char \<Rightarrow> char" where
  "to_ascii_char c = (if 127 < (of_char c :: nat) \<and> unicode_isspace c then CHR '' '' else c)"

definition to_ascii :: "string \<Rightarrow> string" where
  "to_ascii s = map to_ascii_char s"

definition py_strip :: "string \<Rightarrow> string" where
  "py_strip s = rev (dropWhile py_isspace (rev (dropWhile py_isspace s)))"

definition digit_of :: "char \<Rightarrow> int option" where
  "digit_of c =
     (let n = (of_char c :: nat) in
      if 48 \<le> n \<and> n \<le> 57 then Some (int n - 48) else None)"

fun digits_val :: "string \<Rightarrow> int \<Rightarrow> int option" where
  "digits_val [] acc = Some acc"
| "digits_val (c # cs) acc =
     (case digit_of c of
        None \<Rightarrow> None
      | Some d \<Rightarrow> digits_val cs (10 * acc + d))"

definition int_of_str :: "string \<Rightarrow> pyerr + int" where
  "int_of_str s =
     (let t = py_strip (to_ascii s);
          (sgn, ds) =
            (case t of
               [] \<Rightarrow> (1, [])
             | c # cs \<Rightarrow>
                 if c = CHR ''-'' then (- 1, cs)
                 else if c = CHR ''+'' then (1, cs)
                 else (1, t))
      in if ds = [] then Inl (ValueError ''invalid literal for int() with base 10'')
         else
           (case digits_val ds 0 of
              None \<Rightarrow> Inl (ValueError ''invalid literal for int() with base 10'')
            | Some n \<Rightarrow> Inr (sgn * n)))"

text \<open>
  \<open>int(key)\<close>: a float is truncated towards zero, NaN raises ValueError, an infinity
  OverflowError, \<open>None\<close> and objects without \<open>__int__\<close> raise TypeError.
\<close>

fun py_int :: "key \<Rightarrow> pyerr + int" where
  "py_int (KInt i) = Inr i"
| "py_int (KFloat q) = Inr (if 0 \<le> q then \<lfloor>q\<rfloor> else \<lceil>q\<rceil>)"
| "py_int KNaN = Inl (ValueError ''cannot convert float NaN to integer'')"
| "py_int KInf = Inl OverflowError"
| "py_int (KStr s) = int_of_str s"
| "py_int KNone = Inl TypeError"
| "py_int KObj = Inl TypeError"
| "py_int (KSlice a b c) = Inl TypeError"

text \<open>
  The registry dictionaries only ever hold integer keys. A key finds the entry of the
  integer it is equal to: an integer itself, a float with an integral value
  (\<open>2.0 == 2\<close> and both hash alike); no other key equals an integer.
\<close>

fun key_as_int :: "key \<Rightarrow> int option" where
  "key_as_int (KInt i) = Some i"
| "key_as_int (KFloat q) = (if q = of_int \<lfloor>q\<rfloor> then Some \<lfloor>q\<rfloor> else None)"
| "key_as_int k = None"

definition dict_lookup :: "(int \<rightharpoonup> 'v) \<Rightarrow> key \<Rightarrow> 'v option" where
  "dict_lookup d k = (case key_as_int k of None \<Rightarrow> None | Some i \<Rightarrow> d i)"

text \<open>
  \<open>range(start, stop, step)\<close> as the list of its elements; a zero step raises
  ValueError. The number of elements is CPython's.
\<close>

definition py_range :: "int \<Rightarrow> int \<Rightarrow> int \<Rightarrow> pyerr + int list" where
  "py_range start stop step =
     (if step = 0 then Inl (ValueError ''range() arg 3 must not be zero'')
      else if 0 < step then
        Inr (map (\<lambda>i. start + int i * step) [0 ..< nat ((stop - start + step - 1) div step)])
      else
        Inr (map (\<lambda>i. start + int i * step) [0 ..< nat ((start - stop - step - 1) div (- step))]))"

text \<open>
  The slice branch of both \<open>__getitem__\<close> methods: \<open>start = key.start or 0\<close>,
  \<open>stop = key.stop\<close>, \<open>step = key.step or 1\<close>, then \<open>range(start, stop, step)\<close>,
  which is evaluated when the generator expression is created. \<open>x or d\<close> is \<open>d\<close>
  when \<open>x\<close> is \<open>None\<close> or zero; an absent stop makes \<open>range\<close> raise TypeError.
\<close>

definition or_default :: "int option \<Rightarrow> int \<Rightarrow> int" where
  "or_default x d = (case x of None \<Rightarrow> d | Some v \<Rightarrow> if v = 0 then d else v)"

definition slice_range :: "int option \<Rightarrow> int option \<Rightarrow> int option \<Rightarrow> pyerr + int list" where
  "slice_range a b c =
     (let start = or_default a 0; step = or_default c 1 in
      case b of
        None \<Rightarrow> Inl TypeError
      | Some stop \<Rightarrow> py_range start stop step)"

section \<open>Header values\<close>

text \<open>
  A header is a dictionary from names to values; the values the geometry code looks
  at are \<open>None\<close>, integers, floats (finite, as rationals), strings and sequences
  of values. A sequence is a list or a tuple; a one-dimensional numpy array of
  numbers, as the parser gives for \<open>nts\<close>, \<open>aspect\<close> and the coordinates, is taken
  as the sequence of its elements, which is what \<open>list(v)\<close> and \<open>v[0]\<close> see of it.
\<close>

datatype pyval =
    PNone
  | PInt int
  | PFloat rat
  | PStr string
  | PSeq "pyval list"

type_synonym header = "string \<rightharpoonup> pyval"

section \<open>\<open>_Geometry\<close>: the classification of a grid\<close>

text \<open>
  The configuration \<open>par\<close>, as the two entries of its \<open>geometry\<close> section the
  constructor reads.
\<close>

record par_nml =
  geometry_shape :: string
  geometry_r_cmb :: pyval

text \<open>
  \<open>str.lower()\<close> on code points below 256: the capital letters are those from 65 to
  90 and from 192 to 222 without 215, each 32 below its small letter.
\<close>

definition lower_char :: "char \<Rightarrow> char" where
  "lower_char c =
     (let n = (of_char c :: nat) in
      if (65 \<le> n \<and> n \<le> 90) \<or> (192 \<le> n \<and> n \<le> 222 \<and> n \<noteq> 215)
      then char_of (n + 32) else c)"

definition py_lower :: "string \<Rightarrow> string" where
  "py_lower s = map lower_char s"

text \<open>
  \<open>header[name]\<close> raises KeyError for a missing name. \<open>list(v)\<close> needs an
  iterable. \<open>v[0]\<close> needs a sequence or a string, and an element. \<open>v >= c\<close> with a
  number \<open>c\<close> needs a number, compared exactly; a list or a tuple raises TypeError.
  \<open>v == n\<close> with an integer \<open>n\<close> is false for what is no number.
\<close>

definition header_getitem :: "header \<Rightarrow> string \<Rightarrow> pyerr + pyval" where
  "header_getitem h name = (case h name of None \<Rightarrow> Inl KeyError | Some v \<Rightarrow> Inr v)"

fun py_list :: "pyval \<Rightarrow> pyerr + pyval list" where
  "py_list (PSeq vs) = Inr vs"
| "py_list (PStr cs) = Inr (map (\<lambda>c. PStr [c]) cs)"
| "py_list v = Inl TypeError"

fun py_first :: "pyval \<Rightarrow> pyerr + pyval" where
  "py_first (PSeq vs) = list_getitem vs 0"
| "py_first (PStr cs) = (case cs of [] \<Rightarrow> Inl IndexError | c # _ \<Rightarrow> Inr (PStr [c]))"
| "py_first v = Inl TypeError"

fun py_ge :: "pyval \<Rightarrow> rat \<Rightarrow> pyerr + bool" where
  "py_ge (PInt i) c = Inr (c \<le> of_int i)"
| "py_ge (PFloat q) c = Inr (c \<le> q)"
| "py_ge v c = Inl TypeError"

fun py_eq_int :: "pyval \<Rightarrow> int \<Rightarrow> bool" where
  "py_eq_int (PInt i) n = (i = n)"
| "py_eq_int (PFloat q) n = (q = of_int n)"
| "py_eq_int v n = False"

text \<open>\<open>np.pi\<close>, the double nearest to \<open>\<pi>\<close>, as the rational it is.\<close>

definition np_pi :: rat where
  "np_pi = 884279719003555 / 281474976710656"

text \<open>
  \<open>__getattr__\<close> sends \<open>nxtot\<close> and \<open>nytot\<close> to the entries 0 and 1 of
  \<open>self._shape['ntot']\<close> (\<open>'xtypzrb'.index(c) // 2\<close>) and \<open>rcmb\<close> to the header.
  \<open>twod_xz\<close> is \<open>self.nytot == 1\<close> and \<open>twod_yz\<close> is \<open>self.nxtot == 1\<close>.
\<close>

definition twod_xz :: "pyval list \<Rightarrow> pyerr + bool" where
  "twod_xz nt = (case list_getitem nt 1 of Inl err \<Rightarrow> Inl err | Inr v \<Rightarrow> Inr (py_eq_int v 1))"

definition twod_yz :: "pyval list \<Rightarrow> pyerr + bool" where
  "twod_yz nt = (case list_getitem nt 0 of Inl err \<Rightarrow> Inl err | Inr v \<Rightarrow> Inr (py_eq_int v 1))"

text \<open>
  The value of \<open>self.twod_xz and (shape == 'cylindrical' or aspect[0] >= np.pi)\<close>,
  evaluated from the left and only as far as needed.
\<close>

definition curvilinear_cyl :: "string \<Rightarrow> pyval \<Rightarrow> pyval list \<Rightarrow> pyerr + bool" where
  "curvilinear_cyl shape aspect nt =
     (case twod_xz nt of
        Inl err \<Rightarrow> Inl err
      | Inr False \<Rightarrow> Inr False
      | Inr True \<Rightarrow>
          if shape = ''cylindrical'' then Inr True
          else
            (case py_first aspect of
               Inl err \<Rightarrow> Inl err
             | Inr a0 \<Rightarrow> py_ge a0 np_pi))"

text \<open>
  The \<open>if\<close>/\<open>elif\<close> of \<open>__init__\<close> on \<open>self.rcmb\<close>: the pair of \<open>sph\<close> and
  \<open>cyl\<close>, and the header dictionary as the statement leaves it. The header is the
  caller's object: \<open>header['rcmb'] = ...\<close> in the second branch writes into it.
\<close>

definition classify :: "header \<Rightarrow> par_nml \<Rightarrow> string \<Rightarrow> pyval \<Rightarrow> pyval list \<Rightarrow> (pyerr + bool \<times> bool) \<times> header" where
  "classify h par shape aspect nt =
     (case header_getitem h ''rcmb'' of
        Inl err \<Rightarrow> (Inl err, h)
      | Inr PNone \<Rightarrow>
          (let h' = h(''rcmb'' \<mapsto> geometry_r_cmb par) in
           case py_ge (geometry_r_cmb par) 0 of
             Inl err \<Rightarrow> (Inl err, h')
           | Inr False \<Rightarrow> (Inr (False, False), h')
           | Inr True \<Rightarrow>
               (case twod_xz nt of
                  Inl err \<Rightarrow> (Inl err, h')
                | Inr t \<Rightarrow>
                    if t \<and> shape = ''cylindrical'' then (Inr (False, True), h')
                    else if shape = ''spherical'' then (Inr (True, False), h')
                    else (Inr (False, False), h')))
      | Inr rcmb \<Rightarrow>
          (case py_ge rcmb 0 of
             Inl err \<Rightarrow> (Inl err, h)
           | Inr False \<Rightarrow> (Inr (False, False), h)
           | Inr True \<Rightarrow>
               (case curvilinear_cyl shape aspect nt of
                  Inl err \<Rightarrow> (Inl err, h)
                | Inr c \<Rightarrow> (Inr (\<not> c, c), h))))"

text \<open>
  Lines 55 to 71 of \<open>__init__\<close> compute the meshes from the coordinate vectors with
  numpy: floating-point array arithmetic outside this module, which also tells an
  array from a list (\<open>np.array([0.1]) + 0.5\<close> is an array, \<open>[0.1] + 0.5\<close> and
  \<open>None + 0.5\<close> raise TypeError). It is a parameter: what the interpreter and numpy
  return for the objects of the header at hand, or the exception they raise, for
  \<open>a + b\<close> of line 61, for \<open>np.meshgrid(x, y, z, indexing='ij')\<close>, as its three
  arrays, and for the three products of lines 67 to 69 from \<open>t_mesh\<close>, \<open>p_mesh\<close>
  and \<open>r_mesh\<close>.
\<close>

record numerics =
  py_add :: "pyval \<Rightarrow> pyval \<Rightarrow> pyerr + pyval"
  np_meshgrid :: "pyval \<Rightarrow> pyval \<Rightarrow> pyval \<Rightarrow> pyerr + pyval \<times> pyval \<times> pyval"
  cart_of_curv :: "pyval \<Rightarrow> pyval \<Rightarrow> pyval \<Rightarrow> pyerr + pyval \<times> pyval \<times> pyval"

text \<open>
  The \<open>else\<close> branch, lines 60 to 71: the arguments of \<open>np.meshgrid\<close> are evaluated
  from the left, so \<open>self.z_coord + self.rcmb\<close> comes first. The result is the pair
  of \<open>_cart_meshes\<close> and \<open>_curv_meshes\<close>.
\<close>

definition curvilinear_meshes ::
  "numerics \<Rightarrow> pyval \<Rightarrow> pyval \<Rightarrow> pyval \<Rightarrow> pyval \<Rightarrow>
     pyerr + (pyval \<times> pyval \<times> pyval) \<times> (pyval \<times> pyval \<times> pyval)" where
  "curvilinear_meshes np x y z rcmb =
     (case py_add np z rcmb of
        Inl err \<Rightarrow> Inl err
      | Inr zr \<Rightarrow>
     (case np_meshgrid np x y zr of
        Inl err \<Rightarrow> Inl err
      | Inr (t, p, r) \<Rightarrow>
     (case cart_of_curv np t p r of
        Inl err \<Rightarrow> Inl err
      | Inr cm \<Rightarrow> Inr (cm, (t, p, r)))))"

text \<open>
  The geometry object: its header, the entries of \<open>_shape\<close>, the three coordinate
  vectors and the two triples of meshes.
\<close>

record Geometry =
  geom_header :: header
  sph :: bool
  cyl :: bool
  axi :: bool
  ntot :: "pyval list"
  coords :: "pyval \<times> pyval \<times> pyval"
  cart_meshes :: "pyval \<times> pyval \<times> pyval"
  curv_meshes :: "pyval \<times> pyval \<times> pyval"

text \<open>
  \<open>self.cartesian and self.twod_xz and shape == 'axisymmetric'\<close>, where \<open>cartesian\<close>
  is \<open>not (sph or cyl)\<close>.
\<close>

definition axisymmetric :: "bool \<Rightarrow> bool \<Rightarrow> string \<Rightarrow> pyval list \<Rightarrow> pyerr + bool" where
  "axisymmetric s c shape nt =
     (if \<not> (s \<or> c) then
        (case twod_xz nt of
           Inl err \<Rightarrow> Inl err
         | Inr t \<Rightarrow> Inr (t \<and> shape = ''axisymmetric''))
      else Inr False)"

text \<open>
  Lines 55 to 71, after \<open>_shape\<close> and \<open>_coords\<close> are set: the meshes of a Cartesian
  grid, or those of a curvilinear one, for which \<open>self.rcmb\<close> is read from the
  header again. An exception of the mesh computation leaves the constructor.
\<close>

definition Geometry_meshes ::
  "numerics \<Rightarrow> header \<Rightarrow> bool \<Rightarrow> bool \<Rightarrow> pyval \<Rightarrow> pyval \<Rightarrow> pyval \<Rightarrow>
     pyerr + (pyval \<times> pyval \<times> pyval) \<times> (pyval \<times> pyval \<times> pyval)" where
  "Geometry_meshes np h s c x y z =
     (if \<not> (s \<or> c) then
        (case np_meshgrid np x y z of
           Inl err \<Rightarrow> Inl err
         | Inr cm \<Rightarrow> Inr (cm, (PNone, PNone, PNone)))
      else
        (case header_getitem h ''rcmb'' of
           Inl err \<Rightarrow> Inl err
         | Inr rcmb \<Rightarrow> curvilinear_meshes np x y z rcmb))"

text \<open>
  \<open>_Geometry.__init__(header, par)\<close>: the object, or the exception, and the caller's
  header as the constructor leaves it.
\<close>

definition Geometry_init :: "numerics \<Rightarrow> header \<Rightarrow> par_nml \<Rightarrow> (pyerr + Geometry) \<times> header" where
  "Geometry_init np h par =
     (case header_getitem h ''nts'' of
        Inl err \<Rightarrow> (Inl err, h)
      | Inr nts \<Rightarrow>
     (case py_list nts of
        Inl err \<Rightarrow> (Inl err, h)
      | Inr ntsl \<Rightarrow>
     (case header_getitem h ''ntb'' of
        Inl err \<Rightarrow> (Inl err, h)
      | Inr ntb \<Rightarrow>
     (let nt = ntsl @ [ntb]; shape = py_lower (geometry_shape par) in
      case header_getitem h ''aspect'' of
        Inl err \<Rightarrow> (Inl err, h)
      | Inr aspect \<Rightarrow>
     (case classify h par shape aspect nt of
        (Inl err, h') \<Rightarrow> (Inl err, h')
      | (Inr (s, c), h') \<Rightarrow>
     (case axisymmetric s c shape nt of
        Inl err \<Rightarrow> (Inl err, h')
      | Inr a \<Rightarrow>
     (case header_getitem h' ''e1_coord'' of
        Inl err \<Rightarrow> (Inl err, h')
      | Inr c1 \<Rightarrow>
     (case header_getitem h' ''e2_coord'' of
        Inl err \<Rightarrow> (Inl err, h')
      | Inr c2 \<Rightarrow>
     (case header_getitem h' ''e3_coord'' of
        Inl err \<Rightarrow> (Inl err, h')
      | Inr c3 \<Rightarrow>
     (case Geometry_meshes np h' s c c1 c2 c3 of
        Inl err \<Rightarrow> (Inl err, h')
      | Inr (cm, vm) \<Rightarrow>
          (Inr \<lparr> geom_header = h', sph = s, cyl = c, axi = a, ntot = nt,
                 coords = (c1, c2, c3), cart_meshes = cm, curv_meshes = vm \<rparr>, h')))))))))))"

text \<open>The classification properties of the object.\<close>

definition spherical :: "Geometry \<Rightarrow> bool" where
  "spherical g = sph g"

definition cylindrical :: "Geometry \<Rightarrow> bool" where
  "cylindrical g = cyl g"

definition curvilinear :: "Geometry \<Rightarrow> bool" where
  "curvilinear g = (spherical g \<or> cylindrical g)"

definition cartesian :: "Geometry \<Rightarrow> bool" where
  "cartesian g = (\<not> curvilinear g)"

text \<open>
  Three headers and two configurations for the examples below: a grid of 1 by 64 by 64
  cells (2-D in the YZ plane) and one of 64 by 1 by 64 cells (2-D in the XZ plane),
  both with \<open>rcmb = 0.5\<close>, and a grid of 64 by 1 by 64 cells whose header holds
  \<open>rcmb = None\<close>. Their coordinate vectors are empty arrays, and
  \<open>empty_arrays\<close> is the arithmetic on those: the sum of an empty array and a
  number, the meshes of three empty arrays and the products of empty meshes are empty
  arrays. The examples apply it to those and to \<open>None\<close>, whose sum with a number
  raises TypeError.
\<close>

definition empty_arrays :: numerics where
  "empty_arrays =
     \<lparr> py_add = (\<lambda>a b. if a = PSeq [] then Inr (PSeq []) else Inl TypeError),
       np_meshgrid = (\<lambda>x y z. if x = PSeq [] \<and> y = PSeq [] \<and> z = PSeq []
                                then Inr (PSeq [], PSeq [], PSeq []) else Inl TypeError),
       cart_of_curv = (\<lambda>t p r. if t = PSeq [] \<and> p = PSeq [] \<and> r = PSeq []
                                 then Inr (PSeq [], PSeq [], PSeq []) else Inl TypeError) \<rparr>"

definition grid_header :: "pyval list \<Rightarrow> pyval \<Rightarrow> header" where
  "grid_header nts rcmb =
     [''nts'' \<mapsto> PSeq nts, ''ntb'' \<mapsto> PInt 1, ''aspect'' \<mapsto> PSeq [PFloat 1, PFloat 1],
      ''rcmb'' \<mapsto> rcmb, ''e1_coord'' \<mapsto> PSeq [], ''e2_coord'' \<mapsto> PSeq [],
      ''e3_coord'' \<mapsto> PSeq []]"

definition yz_header :: header where
  "yz_header = grid_header [PInt 1, PInt 64, PInt 64] (PFloat (1 / 2))"

definition xz_header :: header where
  "xz_header = grid_header [PInt 64, PInt 1, PInt 64] (PFloat (1 / 2))"

definition no_rcmb_header :: header where
  "no_rcmb_header = grid_header [PInt 64, PInt 1, PInt 64] PNone"

definition par_cylindrical :: par_nml where
  "par_cylindrical = \<lparr> geometry_shape = ''cylindrical'', geometry_r_cmb = PFloat (1 / 2) \<rparr>"

definition par_cartesian :: par_nml where
  "par_cartesian = \<lparr> geometry_shape = ''cartesian'', geometry_r_cmb = PFloat (1 / 2) \<rparr>"

section \<open>Steps, the dataset and the parsing service\<close>

text \<open>
  An object of class \<open>_Step\<close> or \<open>_EmptyStep\<close>, with the attributes \<open>__init__\<close>
  sets: \<open>istep\<close>, the three lazily resolved numbers \<open>_isnap\<close>, \<open>_irsnap\<close>,
  \<open>_itsnap\<close>, and the \<open>_Fields\<close> dictionary with its \<open>_header\<close> and its
  \<open>_geom\<close> (the sentinel or a geometry). The arrays a field holds are of any type
  \<open>'a\<close>. \<open>_EmptyStep.__init__\<close> calls \<open>_Step.__init__(None, None)\<close>.
\<close>

record 'a Step =
  is_empty :: bool
  istep_attr :: "int option"
  isnap_attr :: "int lazy"
  irsnap_attr :: "int lazy"
  itsnap_attr :: "int lazy"
  fields_cache :: "string \<rightharpoonup> 'a"
  fields_header :: "header lazy"
  fields_geom :: "Geometry option"

definition Step_init :: "int \<Rightarrow> 'a Step" where
  "Step_init i =
     \<lparr> is_empty = False, istep_attr = Some i, isnap_attr = UNDETERMINED,
       irsnap_attr = UNDETERMINED, itsnap_attr = UNDETERMINED,
       fields_cache = Map.empty, fields_header = UNDETERMINED, fields_geom = None \<rparr>"

definition EmptyStep_init :: "'a Step" where
  "EmptyStep_init =
     \<lparr> is_empty = True, istep_attr = None, isnap_attr = UNDETERMINED,
       irsnap_attr = UNDETERMINED, itsnap_attr = UNDETERMINED,
       fields_cache = Map.empty, fields_header = UNDETERMINED, fields_geom = None \<rparr>"

text \<open>
  \<open>_EmptyStep.__getattribute__(self, name)\<close> returns \<open>None\<close> for every name, so
  no property of \<open>_Step\<close> runs on a placeholder. Subscripting a value with a
  string, \<open>v['t']\<close>, raises TypeError for each of these values: none is a mapping.
\<close>

definition EmptyStep_getattribute :: "'a Step \<Rightarrow> string \<Rightarrow> pyval" where
  "EmptyStep_getattribute self name = PNone"

definition pyval_getitem :: "pyval \<Rightarrow> string \<Rightarrow> pyerr + pyval" where
  "pyval_getitem v name = Inl TypeError"

text \<open>
  Every call of the parsing service is logged. \<open>stagyyparsers.fields\<close> is called
  with \<open>only_istep=True\<close> on the file of a record kind and snapshot number
  (\<open>Probe\<close>), or in full (\<open>Parse\<close>) or with \<open>only_header=True\<close> (\<open>Header\<close>)
  on the file of a record kind and the step's snapshot number, which is absent from
  the file name when it is \<open>None\<close>. \<open>stagyyparsers.time_series\<close> and
  \<open>stagyyparsers.rprof\<close> read the two files of the whole run.
\<close>

datatype call =
    Probe string int
  | Parse string "int option"
  | Header string "int option"
  | TimeSeries
  | RadialProfiles

text \<open>
  The dataset: \<open>scan\<close> (a set in the source, here in its iteration order), the two
  registry dictionaries from keys to object references, the index \<open>snaps._isteps\<close>,
  the objects by reference, the log of parser calls, and whether \<open>_tseries\<close> and
  \<open>_rprof\<close> are still the sentinel (\<open>_tseries\<close> can also be \<open>None\<close>).
\<close>

record 'a sdat =
  scan :: "string list"
  steps :: "int \<rightharpoonup> nat"
  snaps :: "int \<rightharpoonup> nat"
  isteps :: Indexes
  heap :: "'a Step list"
  calls :: "call list"
  tseries_attr :: "unit lazy"
  rprof_attr :: bool

definition sdat_init :: "string list \<Rightarrow> 'a sdat" where
  "sdat_init sc =
     \<lparr> scan = sc, steps = Map.empty, snaps = Map.empty, isteps = Indexes_init,
       heap = [], calls = [], tseries_attr = UNDETERMINED, rprof_attr = False \<rparr>"

text \<open>
  What lies outside the module: the parsing service, as the step number it reads from
  the file of a record kind and snapshot number (\<open>None\<close> when there is none) and the
  header and raw arrays of a full parse and the header alone (\<open>None\<close> likewise);
  the time series, as the first column of its rows, and the radial profiles, as the
  step number of each (\<open>None\<close> when the parser returns that); the catalogue
  \<open>constants.FIELD_VAR_LIST\<close>, as the record kind \<open>.par\<close> of each field name;
  the configuration \<open>args.par_nml\<close>; and the arithmetic of the meshes.
\<close>

record 'a env =
  probe :: "string \<Rightarrow> int \<Rightarrow> int option"
  parse :: "string \<Rightarrow> int option \<Rightarrow> (header \<times> 'a list) option"
  parse_header :: "string \<Rightarrow> int option \<Rightarrow> header option"
  time_series :: "rat list option"
  rprof_data :: "int list option"
  FIELD_VAR_LIST :: "string \<rightharpoonup> string"
  config :: par_nml
  numpy :: numerics

section \<open>\<open>_Steps\<close>: the \<open>.steps[istep]\<close> accessor\<close>

text \<open>
  Creating an object appends it to the heap; its reference is its position.
  An operation returns its outcome, an exception or a value, and the dataset as the
  operation left it, so that what was changed before an exception stays changed.
\<close>

definition alloc :: "'a Step \<Rightarrow> 'a sdat \<Rightarrow> nat \<times> 'a sdat" where
  "alloc obj s = (length (heap s), s\<lparr> heap := heap s @ [obj] \<rparr>)"

text \<open>\<open>_Steps.__setitem__(self, key, value): pass\<close>, inherited by \<open>_Snaps\<close>.\<close>

definition steps_setitem :: "key \<Rightarrow> nat \<Rightarrow> 'a sdat \<Rightarrow> 'a sdat" where
  "steps_setitem k v s = s"

definition snaps_setitem :: "key \<Rightarrow> nat \<Rightarrow> 'a sdat \<Rightarrow> 'a sdat" where
  "snaps_setitem k v s = s"

text \<open>
  \<open>_Steps.__missing__\<close>: \<open>None\<close> gives a new \<open>_EmptyStep\<close>, stored nowhere; a
  ValueError of \<open>int\<close> is replaced by the source's own, any other exception of
  \<open>int\<close> passes; a negative number is refused; otherwise the step is created unless
  the dictionary has it, stored by \<open>dict.__setitem__\<close>, and read back. The last
  lookup cannot miss (it would call \<open>__missing__\<close> again).
\<close>

definition steps_missing :: "key \<Rightarrow> 'a sdat \<Rightarrow> (pyerr + nat) \<times> 'a sdat" where
  "steps_missing k s =
     (if k = KNone then
        (case alloc EmptyStep_init s of (r, s') \<Rightarrow> (Inr r, s'))
      else
        (case py_int k of
           Inl (ValueError m) \<Rightarrow> (Inl (ValueError ''Time step should be an integer value''), s)
         | Inl err \<Rightarrow> (Inl err, s)
         | Inr i \<Rightarrow>
             if i < 0 then (Inl (ValueError ''Time step should be positive''), s)
             else
               (let s1 =
                  (if steps s i = None then
                     (case alloc (Step_init i) s of
                        (r, s') \<Rightarrow> s'\<lparr> steps := (steps s')(i \<mapsto> r) \<rparr>)
                   else s)
                in case steps s1 i of
                     Some r \<Rightarrow> (Inr r, s1)
                   | None \<Rightarrow> (Inl RecursionError, s1))))"

text \<open>
  \<open>dict.__getitem__\<close> on the registry: the entry when the key has one, else
  \<open>__missing__\<close>.
\<close>

definition steps_item :: "key \<Rightarrow> 'a sdat \<Rightarrow> (pyerr + nat) \<times> 'a sdat" where
  "steps_item k s =
     (case dict_lookup (steps s) k of
        Some r \<Rightarrow> (Inr r, s)
      | None \<Rightarrow> steps_missing k s)"

text \<open>
  A subscription returns a step, or for a slice a generator object: the registry whose
  element expression it runs, and the keys it has not consumed yet.
\<close>

datatype registry = StepsReg | SnapsReg

datatype gen = Gen registry "int list"

datatype res = RStep nat | RGen gen

text \<open>
  \<open>_Steps.__getitem__\<close>: the slice branch when the key has \<open>start\<close>, else (an
  AttributeError caught) \<open>dict.__getitem__\<close>.
\<close>

definition steps_getitem :: "key \<Rightarrow> 'a sdat \<Rightarrow> (pyerr + res) \<times> 'a sdat" where
  "steps_getitem k s =
     (case k of
        KSlice a b c \<Rightarrow>
          (case slice_range a b c of
             Inl err \<Rightarrow> (Inl err, s)
           | Inr ks \<Rightarrow> (Inr (RGen (Gen StepsReg ks)), s))
      | _ \<Rightarrow>
          (case steps_item k s of
             (Inl err, s') \<Rightarrow> (Inl err, s')
           | (Inr r, s') \<Rightarrow> (Inr (RStep r), s')))"

section \<open>\<open>_Snaps\<close>: the \<open>.snaps[isnap]\<close> accessor\<close>

text \<open>The setter of \<open>_Step.isnap\<close> with an integer: \<open>self._isnap = int(isnap)\<close>.\<close>

definition isnap_setter :: "nat \<Rightarrow> int \<Rightarrow> 'a sdat \<Rightarrow> 'a sdat" where
  "isnap_setter r n s = s\<lparr> heap := (heap s)[r := (heap s ! r)\<lparr> isnap_attr := Val n \<rparr>] \<rparr>"

definition key_of_istep :: "int option \<Rightarrow> key" where
  "key_of_istep v = (case v of None \<Rightarrow> KNone | Some i \<Rightarrow> KInt i)"

text \<open>
  \<open>_Snaps.bind\<close>: \<open>self._isteps.insert(isnap, istep)\<close>, then
  \<open>self.sdat.steps[istep].isnap = isnap\<close>.
\<close>

definition snaps_bind :: "int \<Rightarrow> int option \<Rightarrow> 'a sdat \<Rightarrow> (pyerr + unit) \<times> 'a sdat" where
  "snaps_bind isnap v s =
     (case insert_idx (isteps s) isnap v of
        Inl err \<Rightarrow> (Inl err, s)
      | Inr ix \<Rightarrow>
          (case steps_item (key_of_istep v) (s\<lparr> isteps := ix \<rparr>) of
             (Inl err, s') \<Rightarrow> (Inl err, s')
           | (Inr r, s') \<Rightarrow> (Inr (), isnap_setter r isnap s')))"

definition log_call :: "call \<Rightarrow> 'a sdat \<Rightarrow> 'a sdat" where
  "log_call c s = s\<lparr> calls := calls s @ [c] \<rparr>"

text \<open>
  The loop of \<open>_Snaps.__missing__\<close> over the record kinds still to probe. \<open>cur\<close>
  is the local variable \<open>istep\<close> as a key: the sentinel before the first probe,
  \<open>None\<close> after a probe that found nothing. When the loop ends without a step number
  the snapshot is inserted as missing and \<open>self.sdat.steps[istep]\<close> is returned.
\<close>

fun scan_loop :: "'a env \<Rightarrow> int \<Rightarrow> string list \<Rightarrow> key \<Rightarrow> 'a sdat \<Rightarrow> (pyerr + nat) \<times> 'a sdat" where
  "scan_loop e isnap [] cur s =
     (case insert_idx (isteps s) isnap None of
        Inl err \<Rightarrow> (Inl err, s)
      | Inr ix \<Rightarrow> steps_item cur (s\<lparr> isteps := ix \<rparr>))"
| "scan_loop e isnap (par # pars) cur s =
     (let s1 = log_call (Probe par isnap) s in
      case probe e par isnap of
        None \<Rightarrow> scan_loop e isnap pars KNone s1
      | Some i \<Rightarrow>
          (case snaps_bind isnap (Some i) s1 of
             (Inl err, s2) \<Rightarrow> (Inl err, s2)
           | (Inr u, s2) \<Rightarrow> steps_item (KInt i) s2))"

definition snaps_missing :: "'a env \<Rightarrow> int \<Rightarrow> 'a sdat \<Rightarrow> (pyerr + nat) \<times> 'a sdat" where
  "snaps_missing e isnap s =
     (case get_istep (isteps s) isnap of
        Inl err \<Rightarrow> (Inl err, s)
      | Inr UNDETERMINED \<Rightarrow> scan_loop e isnap (scan s) KObj s
      | Inr PyNone \<Rightarrow> steps_item KNone s
      | Inr (Val i) \<Rightarrow> steps_item (KInt i) s)"

text \<open>
  \<open>_Snaps.__getitem__\<close>: the slice branch, else \<open>self.__missing__(key)\<close>. With a
  key that is no integer, \<open>isnap // 250\<close> or the subscription of the bucket list by
  its result raises TypeError.
\<close>

definition snaps_getitem :: "'a env \<Rightarrow> key \<Rightarrow> 'a sdat \<Rightarrow> (pyerr + res) \<times> 'a sdat" where
  "snaps_getitem e k s =
     (case k of
        KSlice a b c \<Rightarrow>
          (case slice_range a b c of
             Inl err \<Rightarrow> (Inl err, s)
           | Inr ks \<Rightarrow> (Inr (RGen (Gen SnapsReg ks)), s))
      | KInt i \<Rightarrow>
          (case snaps_missing e i s of
             (Inl err, s') \<Rightarrow> (Inl err, s')
           | (Inr r, s') \<Rightarrow> (Inr (RStep r), s'))
      | _ \<Rightarrow> (Inl TypeError, s))"

section \<open>Generators\<close>

text \<open>
  The element expression of a generator: \<open>dict.__getitem__(self, k)\<close> for the steps,
  \<open>self.__missing__(k)\<close> for the snapshots.
\<close>

definition gen_item :: "'a env \<Rightarrow> registry \<Rightarrow> int \<Rightarrow> 'a sdat \<Rightarrow> (pyerr + nat) \<times> 'a sdat" where
  "gen_item e reg k s =
     (case reg of
        StepsReg \<Rightarrow> steps_item (KInt k) s
      | SnapsReg \<Rightarrow> snaps_missing e k s)"

text \<open>
  Iterating a generator to its end (\<open>for step in g\<close>, \<open>list(g)\<close>): the elements it
  yields, or the exception an element raises, with the generator object as the
  iteration leaves it. A generator is consumed as it runs and is finished after an
  exception.
\<close>

fun gen_iterate :: "'a env \<Rightarrow> registry \<Rightarrow> int list \<Rightarrow> 'a sdat \<Rightarrow> (pyerr + nat list) \<times> gen \<times> 'a sdat" where
  "gen_iterate e reg [] s = (Inr [], Gen reg [], s)"
| "gen_iterate e reg (k # ks) s =
     (case gen_item e reg k s of
        (Inl err, s') \<Rightarrow> (Inl err, Gen reg [], s')
      | (Inr r, s') \<Rightarrow>
          (case gen_iterate e reg ks s' of
             (Inl err, g, s'') \<Rightarrow> (Inl err, g, s'')
           | (Inr rs, g, s'') \<Rightarrow> (Inr (r # rs), g, s'')))"

definition iterate :: "'a env \<Rightarrow> gen \<Rightarrow> 'a sdat \<Rightarrow> (pyerr + nat list) \<times> gen \<times> 'a sdat" where
  "iterate e g s = (case g of Gen reg ks \<Rightarrow> gen_iterate e reg ks s)"

section \<open>\<open>_Step.isnap\<close>: the forward snapshot search\<close>

text \<open>
  The \<open>while\<close> loop of the getter, with \<open>cur\<close> the local \<open>istep\<close> and \<open>isnap\<close>
  the snapshot number reached. \<open>self.sdat.snaps[isnap]\<close> is \<open>__missing__\<close> of the
  snapshots, since an integer has no \<open>start\<close>; \<open>.istep\<close> of a placeholder is
  \<open>None\<close>.
\<close>

function search_loop :: "'a env \<Rightarrow> int \<Rightarrow> int option \<Rightarrow> int \<Rightarrow> 'a sdat \<Rightarrow> (pyerr + int option) \<times> 'a sdat" where
  "search_loop e self_istep cur isnap s =
     (if (case cur of None \<Rightarrow> True | Some c \<Rightarrow> c < self_istep) \<and> isnap < 99999 then
        (case snaps_missing e (isnap + 1) s of
           (Inl err, s1) \<Rightarrow> (Inl err, s1)
         | (Inr r, s1) \<Rightarrow>
             (let cur' = (if is_empty (heap s1 ! r) then None else istep_attr (heap s1 ! r)) in
              case snaps_bind (isnap + 1) cur' s1 of
                (Inl err, s2) \<Rightarrow> (Inl err, s2)
              | (Inr u, s2) \<Rightarrow> search_loop e self_istep cur' (isnap + 1) s2))
      else (Inr cur, s))"
  by pat_completeness auto
termination
  by (relation "measure (\<lambda>(e, self_istep, cur, isnap, s). nat (99999 - isnap))") auto

declare search_loop.simps [simp del]

text \<open>
  The getter of \<open>_Step.isnap\<close>. On a placeholder no property runs and the value is
  \<open>None\<close>. A \<open>_Step\<close> always has an integer \<open>istep\<close>; without one the comparison
  in the loop would raise TypeError.
\<close>

definition step_isnap :: "'a env \<Rightarrow> nat \<Rightarrow> 'a sdat \<Rightarrow> (pyerr + int lazy) \<times> 'a sdat" where
  "step_isnap e r s =
     (let self = heap s ! r in
      if is_empty self then (Inr PyNone, s)
      else if isnap_attr self = UNDETERMINED then
        (case istep_attr self of
           None \<Rightarrow> (Inl TypeError, s)
         | Some self_istep \<Rightarrow>
             (case search_loop e self_istep None (- 1) s of
                (Inl err, s1) \<Rightarrow> (Inl err, s1)
              | (Inr cur, s1) \<Rightarrow>
                  (let s2 =
                     (if cur \<noteq> Some self_istep then
                        s1\<lparr> heap := (heap s1)[r := (heap s1 ! r)\<lparr> isnap_attr := PyNone \<rparr>] \<rparr>
                      else s1)
                   in (Inr (isnap_attr (heap s2 ! r)), s2))))
      else (Inr (isnap_attr self), s))"

section \<open>\<open>_Fields\<close>: the fields of a step\<close>

definition fld_names :: "string \<Rightarrow> string \<Rightarrow> string list" where
  "fld_names par_type name =
     (if par_type = ''vp'' then [''u'', ''v'', ''w'', ''p'']
      else if par_type = ''sx'' then [''sx'', ''sy'', ''sz'', ''x'']
      else [name])"

text \<open>\<open>for fld_name, fld in zip(fld_names, fields): self[fld_name] = fld\<close>\<close>

fun store_fields :: "(string \<times> 'a) list \<Rightarrow> (string \<rightharpoonup> 'a) \<Rightarrow> (string \<rightharpoonup> 'a)" where
  "store_fields [] d = d"
| "store_fields ((n, a) # rest) d = store_fields rest (d(n \<mapsto> a))"

text \<open>
  The number \<open>filename\<close> puts into the file name from \<open>self.step.isnap\<close>: none
  for \<open>None\<close>; the sentinel cannot be formatted as a number.
\<close>

fun file_number :: "int lazy \<Rightarrow> pyerr + int option" where
  "file_number UNDETERMINED = Inl TypeError"
| "file_number PyNone = Inr None"
| "file_number (Val i) = Inr (Some i)"

text \<open>
  The assignments of \<open>__missing__\<close> after a parse: \<open>self._header = header\<close> and the
  arrays stored under the names of the record kind.
\<close>

definition fields_store :: "string \<Rightarrow> string \<Rightarrow> header \<Rightarrow> 'a list \<Rightarrow> nat \<Rightarrow> 'a sdat \<Rightarrow> 'a sdat" where
  "fields_store par_type name hdr flds r s =
     s\<lparr> heap := (heap s)[r := (heap s ! r)
            \<lparr> fields_header := Val hdr,
              fields_cache := store_fields (zip (fld_names par_type name) flds)
                                (fields_cache (heap s ! r)) \<rparr>] \<rparr>"

text \<open>
  \<open>_Fields.__missing__\<close> on the fields of the step \<open>r\<close>. The file is named by the
  record kind and \<open>self.step.isnap\<close>, whose getter runs first. A parse that returns \<open>None\<close> cannot be
  unpacked into header and fields: TypeError. The final \<open>return self[name]\<close> is
  \<open>dict.__getitem__\<close>, which calls \<open>__missing__\<close> again when the name was not
  stored; \<open>depth\<close> bounds that recursion as the interpreter does, with RecursionError.
\<close>

fun Fields_missing :: "'a env \<Rightarrow> nat \<Rightarrow> nat \<Rightarrow> string \<Rightarrow> 'a sdat \<Rightarrow> (pyerr + 'a) \<times> 'a sdat" where
  "Fields_missing e 0 r name s = (Inl RecursionError, s)"
| "Fields_missing e (Suc depth) r name s =
     (case FIELD_VAR_LIST e name of
        None \<Rightarrow> (Inl (ValueError (''Unknown field variable: '' @ [CHR 0x27] @ name @ [CHR 0x27])), s)
      | Some par_type \<Rightarrow>
          (case step_isnap e r s of
             (Inl err, s1) \<Rightarrow> (Inl err, s1)
           | (Inr sn, s1) \<Rightarrow>
               (case file_number sn of
                  Inl err \<Rightarrow> (Inl err, s1)
                | Inr num \<Rightarrow>
                    (case parse e par_type num of
                       None \<Rightarrow> (Inl TypeError, log_call (Parse par_type num) s1)
                     | Some (hdr, flds) \<Rightarrow>
                         (let s3 = fields_store par_type name hdr flds r
                                     (log_call (Parse par_type num) s1)
                          in case fields_cache (heap s3 ! r) name of
                               Some a \<Rightarrow> (Inr a, s3)
                             | None \<Rightarrow> Fields_missing e depth r name s3)))))"

text \<open>\<open>step.fields[name]\<close> on a \<open>_Step\<close>: the cached array, else \<open>__missing__\<close>.\<close>

definition Fields_getitem :: "'a env \<Rightarrow> nat \<Rightarrow> nat \<Rightarrow> string \<Rightarrow> 'a sdat \<Rightarrow> (pyerr + 'a) \<times> 'a sdat" where
  "Fields_getitem e depth r name s =
     (case fields_cache (heap s ! r) name of
        Some a \<Rightarrow> (Inr a, s)
      | None \<Rightarrow> Fields_missing e depth r name s)"

section \<open>The series of the whole run\<close>

text \<open>The setters of \<open>_Step.irsnap\<close> and \<open>_Step.itsnap\<close> with an integer.\<close>

definition irsnap_setter :: "nat \<Rightarrow> int \<Rightarrow> 'a sdat \<Rightarrow> 'a sdat" where
  "irsnap_setter r n s = s\<lparr> heap := (heap s)[r := (heap s ! r)\<lparr> irsnap_attr := Val n \<rparr>] \<rparr>"

definition itsnap_setter :: "nat \<Rightarrow> int \<Rightarrow> 'a sdat \<Rightarrow> 'a sdat" where
  "itsnap_setter r n s = s\<lparr> heap := (heap s)[r := (heap s ! r)\<lparr> itsnap_attr := Val n \<rparr>] \<rparr>"

text \<open>
  \<open>StagyyData.tseries\<close>: on the first access the file is parsed and assigned, then
  \<open>self.steps[int(timeinfo[0])].itsnap = itsnap\<close> runs for each row. Enumerating
  \<open>None\<close> raises TypeError.
\<close>

fun tseries_loop :: "rat list \<Rightarrow> int \<Rightarrow> 'a sdat \<Rightarrow> (pyerr + unit) \<times> 'a sdat" where
  "tseries_loop [] itsnap s = (Inr (), s)"
| "tseries_loop (t0 # rows) itsnap s =
     (case py_int (KFloat t0) of
        Inl err \<Rightarrow> (Inl err, s)
      | Inr i \<Rightarrow>
          (case steps_item (KInt i) s of
             (Inl err, s') \<Rightarrow> (Inl err, s')
           | (Inr r, s') \<Rightarrow> tseries_loop rows (itsnap + 1) (itsnap_setter r itsnap s')))"

definition sdat_tseries :: "'a env \<Rightarrow> 'a sdat \<Rightarrow> (pyerr + unit) \<times> 'a sdat" where
  "sdat_tseries e s =
     (if tseries_attr s = UNDETERMINED then
        (case time_series e of
           None \<Rightarrow> (Inl TypeError, (log_call TimeSeries s)\<lparr> tseries_attr := PyNone \<rparr>)
         | Some rows \<Rightarrow> tseries_loop rows 0 ((log_call TimeSeries s)\<lparr> tseries_attr := Val () \<rparr>))
      else (Inr (), s))"

text \<open>
  \<open>StagyyData.rprof\<close>: on the first access the file is parsed,
  \<open>self.steps[istep].irsnap = irsnap\<close> runs for each profile, and only then
  \<open>_rprof\<close> is assigned.
\<close>

fun rprof_loop :: "int list \<Rightarrow> int \<Rightarrow> 'a sdat \<Rightarrow> (pyerr + unit) \<times> 'a sdat" where
  "rprof_loop [] irsnap s = (Inr (), s)"
| "rprof_loop (i # rows) irsnap s =
     (case steps_item (KInt i) s of
        (Inl err, s') \<Rightarrow> (Inl err, s')
      | (Inr r, s') \<Rightarrow> rprof_loop rows (irsnap + 1) (irsnap_setter r irsnap s'))"

definition sdat_rprof :: "'a env \<Rightarrow> 'a sdat \<Rightarrow> (pyerr + unit) \<times> 'a sdat" where
  "sdat_rprof e s =
     (if \<not> rprof_attr s then
        (case rprof_data e of
           None \<Rightarrow> (Inl TypeError, log_call RadialProfiles s)
         | Some rows \<Rightarrow>
             (case rprof_loop rows 0 (log_call RadialProfiles s) of
                (Inl err, s') \<Rightarrow> (Inl err, s')
              | (Inr u, s') \<Rightarrow> (Inr (), s'\<lparr> rprof_attr := True \<rparr>)))
      else (Inr (), s))"

text \<open>
  The getters of \<open>_Step.irsnap\<close> and \<open>_Step.itsnap\<close>: the series is accessed first,
  then a number still undetermined becomes \<open>None\<close>. \<open>_Step.rprof\<close> and
  \<open>_Step.timeinfo\<close> read these and then subscribe the series, which changes nothing
  more.
\<close>

definition step_irsnap :: "'a env \<Rightarrow> nat \<Rightarrow> 'a sdat \<Rightarrow> (pyerr + int lazy) \<times> 'a sdat" where
  "step_irsnap e r s =
     (if is_empty (heap s ! r) then (Inr PyNone, s)
      else
        (case sdat_rprof e s of
           (Inl err, s1) \<Rightarrow> (Inl err, s1)
         | (Inr u, s1) \<Rightarrow>
             (let s2 =
                (if irsnap_attr (heap s1 ! r) = UNDETERMINED then
                   s1\<lparr> heap := (heap s1)[r := (heap s1 ! r)\<lparr> irsnap_attr := PyNone \<rparr>] \<rparr>
                 else s1)
              in (Inr (irsnap_attr (heap s2 ! r)), s2))))"

definition step_itsnap :: "'a env \<Rightarrow> nat \<Rightarrow> 'a sdat \<Rightarrow> (pyerr + int lazy) \<times> 'a sdat" where
  "step_itsnap e r s =
     (if is_empty (heap s ! r) then (Inr PyNone, s)
      else
        (case sdat_tseries e s of
           (Inl err, s1) \<Rightarrow> (Inl err, s1)
         | (Inr u, s1) \<Rightarrow>
             (let s2 =
                (if itsnap_attr (heap s1 ! r) = UNDETERMINED then
                   s1\<lparr> heap := (heap s1)[r := (heap s1 ! r)\<lparr> itsnap_attr := PyNone \<rparr>] \<rparr>
                 else s1)
              in (Inr (itsnap_attr (heap s2 ! r)), s2))))"

section \<open>\<open>_Fields.geom\<close>: the geometry of a step\<close>

text \<open>
  The loop of the getter over the record kinds: the file is named by the kind and
  \<open>self.step.isnap\<close>, read anew in each round, and the first header found is kept.
\<close>

definition set_header :: "nat \<Rightarrow> header lazy \<Rightarrow> 'a sdat \<Rightarrow> 'a sdat" where
  "set_header r v s = s\<lparr> heap := (heap s)[r := (heap s ! r)\<lparr> fields_header := v \<rparr>] \<rparr>"

fun header_loop :: "'a env \<Rightarrow> nat \<Rightarrow> string list \<Rightarrow> 'a sdat \<Rightarrow> (pyerr + unit) \<times> 'a sdat" where
  "header_loop e r [] s = (Inr (), s)"
| "header_loop e r (par # pars) s =
     (case step_isnap e r s of
        (Inl err, s1) \<Rightarrow> (Inl err, s1)
      | (Inr sn, s1) \<Rightarrow>
          (case file_number sn of
             Inl err \<Rightarrow> (Inl err, s1)
           | Inr num \<Rightarrow>
               (case parse_header e par num of
                  None \<Rightarrow> header_loop e r pars (log_call (Header par num) s1)
                | Some hdr \<Rightarrow>
                    (Inr (), set_header r (Val hdr) (log_call (Header par num) s1)))))"

text \<open>
  \<open>step.geom\<close> on a \<open>_Step\<close>, which is \<open>self.fields.geom\<close>. The header is set to
  \<open>None\<close> before the loop, so a loop that raises is not run again. The geometry is
  built from \<open>self._header\<close>: from \<open>None\<close> the constructor raises TypeError at
  \<open>header['nts']\<close>, and what it writes into the header is written into the object
  \<open>_header\<close> refers to.
\<close>

definition Fields_geom :: "'a env \<Rightarrow> nat \<Rightarrow> 'a sdat \<Rightarrow> (pyerr + Geometry) \<times> 'a sdat" where
  "Fields_geom e r s =
     (case (if is_undetermined (fields_header (heap s ! r))
            then header_loop e r (scan s) (set_header r PyNone s)
            else (Inr (), s)) of
        (Inl err, s1) \<Rightarrow> (Inl err, s1)
      | (Inr u, s1) \<Rightarrow>
          (case fields_geom (heap s1 ! r) of
             Some g \<Rightarrow> (Inr g, s1)
           | None \<Rightarrow>
               (case fields_header (heap s1 ! r) of
                  Val hdr \<Rightarrow>
                    (case Geometry_init (numpy e) hdr (config e) of
                       (Inl err, hdr') \<Rightarrow> (Inl err, set_header r (Val hdr') s1)
                     | (Inr g, hdr') \<Rightarrow>
                         (Inr g,
                          s1\<lparr> heap := (heap s1)[r := (heap s1 ! r)
                                 \<lparr> fields_header := Val hdr', fields_geom := Some g \<rparr>] \<rparr>))
                | _ \<Rightarrow> (Inl TypeError, s1))))"

section \<open>A parsing service for the examples\<close>

text \<open>
  Two concrete surroundings for the examples below. In \<open>no_files\<close> no file exists
  and the catalogue is empty. In \<open>one_snapshot\<close> snapshot 0 of the record kind
  \<open>vp\<close> exists, holds step 0, and parses into an empty header and four arrays
  (numbered 10 to 13); the catalogue names the four fields of \<open>vp\<close> and \<open>t\<close>.
\<close>

definition no_files :: "nat env" where
  "no_files =
     \<lparr> probe = (\<lambda>par n. None), parse = (\<lambda>par n. None), parse_header = (\<lambda>par n. None),
       time_series = None, rprof_data = None, FIELD_VAR_LIST = Map.empty,
       config = par_cartesian, numpy = empty_arrays \<rparr>"

definition one_snapshot :: "nat env" where
  "one_snapshot =
     \<lparr> probe = (\<lambda>par n. if par = ''vp'' \<and> n = 0 then Some 0 else None),
       parse = (\<lambda>par n. if par = ''vp'' \<and> n = Some 0
                         then Some (Map.empty, [10, 11, 12, 13]) else None),
       parse_header = (\<lambda>par n. None), time_series = None, rprof_data = None,
       FIELD_VAR_LIST = [''u'' \<mapsto> ''vp'', ''v'' \<mapsto> ''vp'', ''w'' \<mapsto> ''vp'',
                         ''p'' \<mapsto> ''vp'', ''t'' \<mapsto> ''t''],
       config = par_cartesian, numpy = empty_arrays \<rparr>"

text \<open>
  The dataset \<open>dataset.snaps[0]\<close> leaves in \<open>one_snapshot\<close> when \<open>vp\<close> is the
  record kind to scan: step 0 exists, with its snapshot number resolved to 0.
\<close>

definition step0_resolved :: "nat sdat" where
  "step0_resolved =
     \<lparr> scan = [''vp''], steps = [0 \<mapsto> 0], snaps = Map.empty,
       isteps = Indexes_init\<lparr> isnap_lists := (replicate 400 [])[0 := [0]],
                              istep_lists := (replicate 400 [])[0 := [Some 0]] \<rparr>,
       heap = [(Step_init 0)\<lparr> isnap_attr := Val 0 \<rparr>], calls = [Probe ''vp'' 0],
       tseries_attr = UNDETERMINED, rprof_attr = False \<rparr>"

section \<open>The operations the module defines\<close>

text \<open>
  What a caller can do with a dataset through what the module defines for the two
  registries and the steps they return: subscribe and assign \<open>dataset.steps\<close> and
  \<open>dataset.snaps\<close>, call
  \<open>dataset.snaps.bind\<close>, iterate a generator, read \<open>dataset.tseries\<close> and
  \<open>dataset.rprof\<close>, read and set \<open>isnap\<close>, \<open>irsnap\<close> and \<open>itsnap\<close> of a step,
  and read \<open>step.fields[name]\<close> and \<open>step.geom\<close>. (\<open>step.rprof\<close> and
  \<open>step.timeinfo\<close> leave the dataset as reading \<open>irsnap\<close> and \<open>itsnap\<close> do.)
  Each operation is run for the dataset it leaves. A
  generator may hold any keys: a slice gives an arithmetic progression and a partly
  consumed generator a suffix of one. An attribute of a placeholder is \<open>None\<close>, so
  reading one does nothing and subscribing \<open>fields\<close> raises TypeError.
\<close>

datatype op =
    StepsGetitem key
  | StepsSetitem key nat
  | SnapsGetitem key
  | SnapsSetitem key nat
  | SnapsBind int "int option"
  | Iterate gen
  | StepIsnap nat
  | StepIsnapSet nat int
  | StepFields nat nat string
  | StepGeom nat
  | DatasetTseries
  | DatasetRprof
  | StepIrsnap nat
  | StepIrsnapSet nat int
  | StepItsnap nat
  | StepItsnapSet nat int

definition exec :: "'a env \<Rightarrow> op \<Rightarrow> 'a sdat \<Rightarrow> 'a sdat" where
  "exec e opn s =
     (case opn of
        StepsGetitem k \<Rightarrow> snd (steps_getitem k s)
      | StepsSetitem k v \<Rightarrow> steps_setitem k v s
      | SnapsGetitem k \<Rightarrow> snd (snaps_getitem e k s)
      | SnapsSetitem k v \<Rightarrow> snaps_setitem k v s
      | SnapsBind n v \<Rightarrow> snd (snaps_bind n v s)
      | Iterate g \<Rightarrow> snd (snd (iterate e g s))
      | StepIsnap r \<Rightarrow> (if r < length (heap s) then snd (step_isnap e r s) else s)
      | StepIsnapSet r n \<Rightarrow> (if r < length (heap s) then isnap_setter r n s else s)
      | StepFields depth r name \<Rightarrow>
          (if r < length (heap s) \<and> \<not> is_empty (heap s ! r)
           then snd (Fields_getitem e depth r name s) else s)
      | StepGeom r \<Rightarrow>
          (if r < length (heap s) \<and> \<not> is_empty (heap s ! r)
           then snd (Fields_geom e r s) else s)
      | DatasetTseries \<Rightarrow> snd (sdat_tseries e s)
      | DatasetRprof \<Rightarrow> snd (sdat_rprof e s)
      | StepIrsnap r \<Rightarrow> (if r < length (heap s) then snd (step_irsnap e r s) else s)
      | StepIrsnapSet r n \<Rightarrow> (if r < length (heap s) then irsnap_setter r n s else s)
      | StepItsnap r \<Rightarrow> (if r < length (heap s) then snd (step_itsnap e r s) else s)
      | StepItsnapSet r n \<Rightarrow> (if r < length (heap s) then itsnap_setter r n s else s))"

text \<open>The dataset after a sequence of operations on a new one.\<close>

definition exec_all :: "'a env \<Rightarrow> op list \<Rightarrow> 'a sdat \<Rightarrow> 'a sdat" where
  "exec_all e ops s = foldl (\<lambda>t opn. exec e opn t) s ops"

section \<open>What the registries inherit from \<open>dict\<close>\<close>

text \<open>
  \<open>_Steps\<close> is a subclass of \<open>dict\<close> and \<open>_Snaps\<close> one of \<open>_Steps\<close>. The classes
  override \<open>__init__\<close>, \<open>__setitem__\<close>, \<open>__getitem__\<close> and \<open>__missing__\<close> and
  nothing else of \<open>dict\<close>, so a caller has the other methods of a dictionary on both
  registries, as
  \<open>dict\<close> defines them: \<open>del d[key]\<close>, \<open>d.pop(key)\<close>, \<open>d.clear()\<close>,
  \<open>d.update(other)\<close> and \<open>d.setdefault(key, value)\<close> change the dictionary itself
  and call neither \<open>__setitem__\<close> nor \<open>__missing__\<close>. (\<open>d.popitem()\<close> removes an
  entry the interpreter chooses.) A slice is not hashable, and a key that is equal to
  no key of the dictionary raises KeyError. \<open>update\<close> and \<open>setdefault\<close> are modelled
  for integer keys and for values that are steps.
\<close>

definition registry_dict :: "registry \<Rightarrow> 'a sdat \<Rightarrow> (int \<rightharpoonup> nat)" where
  "registry_dict reg s = (case reg of StepsReg \<Rightarrow> steps s | SnapsReg \<Rightarrow> snaps s)"

definition registry_store :: "registry \<Rightarrow> (int \<rightharpoonup> nat) \<Rightarrow> 'a sdat \<Rightarrow> 'a sdat" where
  "registry_store reg d s =
     (case reg of StepsReg \<Rightarrow> s\<lparr> steps := d \<rparr> | SnapsReg \<Rightarrow> s\<lparr> snaps := d \<rparr>)"

definition dict_pop :: "registry \<Rightarrow> key \<Rightarrow> 'a sdat \<Rightarrow> (pyerr + nat) \<times> 'a sdat" where
  "dict_pop reg k s =
     (case k of
        KSlice a b c \<Rightarrow> (Inl TypeError, s)
      | _ \<Rightarrow>
          (case key_as_int k of
             None \<Rightarrow> (Inl KeyError, s)
           | Some i \<Rightarrow>
               (case registry_dict reg s i of
                  None \<Rightarrow> (Inl KeyError, s)
                | Some r \<Rightarrow>
                    (Inr r, registry_store reg ((registry_dict reg s)(i := None)) s))))"

definition dict_delitem :: "registry \<Rightarrow> key \<Rightarrow> 'a sdat \<Rightarrow> (pyerr + unit) \<times> 'a sdat" where
  "dict_delitem reg k s =
     (case dict_pop reg k s of
        (Inl err, s') \<Rightarrow> (Inl err, s')
      | (Inr r, s') \<Rightarrow> (Inr (), s'))"

definition dict_clear :: "registry \<Rightarrow> 'a sdat \<Rightarrow> 'a sdat" where
  "dict_clear reg s = registry_store reg Map.empty s"

definition dict_update :: "registry \<Rightarrow> (int \<times> nat) list \<Rightarrow> 'a sdat \<Rightarrow> 'a sdat" where
  "dict_update reg kvs s =
     registry_store reg (foldl (\<lambda>d (k, v). d(k \<mapsto> v)) (registry_dict reg s) kvs) s"

definition dict_setdefault :: "registry \<Rightarrow> int \<Rightarrow> nat \<Rightarrow> 'a sdat \<Rightarrow> nat \<times> 'a sdat" where
  "dict_setdefault reg k v s =
     (case registry_dict reg s k of
        Some r \<Rightarrow> (r, s)
      | None \<Rightarrow> (v, registry_store reg ((registry_dict reg s)(k \<mapsto> v)) s))"

subsection \<open>Proof vocabulary for the registries\<close>

text \<open>
  The representation invariant of a dataset: every entry of the step registry refers
  to a \<open>_Step\<close> of that non-negative number, every \<open>_Step\<close> object is the entry of
  its number, placeholders have no number, the dictionary of the snapshot registry is
  empty, and the index is well formed. And the relation between a dataset and a later
  one: entries and objects are kept, with their class and number.
\<close>

definition registry_inv :: "'a sdat \<Rightarrow> bool" where
  "registry_inv s =
     ((\<forall>k r. steps s k = Some r \<longrightarrow>
         r < length (heap s) \<and> \<not> is_empty (heap s ! r) \<and>
         istep_attr (heap s ! r) = Some k \<and> 0 \<le> k) \<and>
      (\<forall>r<length (heap s). \<not> is_empty (heap s ! r) \<longrightarrow>
         (\<exists>k. istep_attr (heap s ! r) = Some k \<and> steps s k = Some r)) \<and>
      (\<forall>r<length (heap s). is_empty (heap s ! r) \<longrightarrow> istep_attr (heap s ! r) = None) \<and>
      snaps s = Map.empty \<and> wf_index (isteps s))"

definition extends :: "'a sdat \<Rightarrow> 'a sdat \<Rightarrow> bool" where
  "extends s s' =
     ((\<forall>k r. steps s k = Some r \<longrightarrow> steps s' k = Some r) \<and>
      snaps s' = snaps s \<and> scan s' = scan s \<and>
      length (heap s) \<le> length (heap s') \<and>
      (\<forall>r<length (heap s).
         is_empty (heap s' ! r) = is_empty (heap s ! r) \<and>
         istep_attr (heap s' ! r) = istep_attr (heap s ! r)))"

definition keeps :: "'a sdat \<Rightarrow> 'a sdat \<Rightarrow> bool" where
  "keeps s s' = (extends s s' \<and> (registry_inv s \<longrightarrow> registry_inv s'))"

section \<open>Verification of the index\<close>

lemma bisect_loop_spec:
  assumes "sorted a" "lo \<le> hi" "hi \<le> length a"
    "\<forall>i<lo. a ! i < x" "\<forall>i. hi \<le> i \<and> i < length a \<longrightarrow> x \<le> a ! i"
  shows "bisect_loop a x lo hi \<le> length a \<and>
         (\<forall>i<bisect_loop a x lo hi. a ! i < x) \<and>
         (\<forall>i. bisect_loop a x lo hi \<le> i \<and> i < length a \<longrightarrow> x \<le> a ! i)"
  using assms
proof (induction a x lo hi rule: bisect_loop.induct)
  case (1 a x lo hi)
  show ?case
  proof (cases "lo < hi")
    case False
    with "1.prems" have "lo = hi" by simp
    with False "1.prems" show ?thesis by (simp add: bisect_loop.simps[of a x hi hi])
  next
    case True
    define mid where "mid = (lo + hi) div 2"
    have mid: "lo \<le> mid" "mid < hi" using True by (simp_all add: mid_def)
    show ?thesis
    proof (cases "a ! mid < x")
      case lt: True
      have below: "\<forall>i<mid + 1. a ! i < x"
      proof (intro allI impI)
        fix i assume "i < mid + 1"
        then have "i \<le> mid" by simp
        moreover have "mid < length a" using mid "1.prems" by simp
        ultimately have "a ! i \<le> a ! mid" using "1.prems"(1) by (simp add: sorted_nth_mono)
        with lt show "a ! i < x" by simp
      qed
      have "bisect_loop a x lo hi = bisect_loop a x (mid + 1) hi"
        using True lt by (subst bisect_loop.simps) (simp add: mid_def Let_def)
      moreover have "bisect_loop a x (mid + 1) hi \<le> length a \<and>
         (\<forall>i<bisect_loop a x (mid + 1) hi. a ! i < x) \<and>
         (\<forall>i. bisect_loop a x (mid + 1) hi \<le> i \<and> i < length a \<longrightarrow> x \<le> a ! i)"
        using "1.IH"(1)[OF True mid_def lt "1.prems"(1) _ "1.prems"(3) below "1.prems"(5)] mid by simp
      ultimately show ?thesis by simp
    next
      case ge: False
      have above: "\<forall>i. mid \<le> i \<and> i < length a \<longrightarrow> x \<le> a ! i"
      proof (intro allI impI)
        fix i assume "mid \<le> i \<and> i < length a"
        then have "a ! mid \<le> a ! i" using "1.prems"(1) by (simp add: sorted_nth_mono)
        with ge show "x \<le> a ! i" by simp
      qed
      have "bisect_loop a x lo hi = bisect_loop a x lo mid"
        using True ge by (subst bisect_loop.simps) (simp add: mid_def Let_def)
      moreover have "bisect_loop a x lo mid \<le> length a \<and>
         (\<forall>i<bisect_loop a x lo mid. a ! i < x) \<and>
         (\<forall>i. bisect_loop a x lo mid \<le> i \<and> i < length a \<longrightarrow> x \<le> a ! i)"
        using "1.IH"(2)[OF True mid_def ge "1.prems"(1) _ _ "1.prems"(4) above] mid "1.prems" by simp
      ultimately show ?thesis by simp
    qed
  qed
qed

lemma bisect_left_spec:
  assumes "sorted_wrt (<) b"
  shows "bisect_left b x \<le> length b"
    and "i < bisect_left b x \<Longrightarrow> b ! i < x"
    and "bisect_left b x \<le> i \<Longrightarrow> i < length b \<Longrightarrow> x \<le> b ! i"
proof -
  have s: "sorted b" using assms by (simp add: strict_sorted_iff)
  have "bisect_loop b x 0 (length b) \<le> length b \<and>
         (\<forall>i<bisect_loop b x 0 (length b). b ! i < x) \<and>
         (\<forall>i. bisect_loop b x 0 (length b) \<le> i \<and> i < length b \<longrightarrow> x \<le> b ! i)"
    by (rule bisect_loop_spec[OF s]) simp_all
  then show "bisect_left b x \<le> length b"
    and "i < bisect_left b x \<Longrightarrow> b ! i < x"
    and "bisect_left b x \<le> i \<Longrightarrow> i < length b \<Longrightarrow> x \<le> b ! i"
    by (simp_all add: bisect_left_def)
qed

lemma bisect_present_iff:
  assumes "sorted_wrt (<) b"
  shows "(bisect_left b x < length b \<and> b ! bisect_left b x = x) \<longleftrightarrow> x \<in> set b"
proof
  assume "bisect_left b x < length b \<and> b ! bisect_left b x = x"
  then show "x \<in> set b" using nth_mem by metis
next
  assume "x \<in> set b"
  then obtain j where j: "j < length b" "b ! j = x" by (auto simp: in_set_conv_nth)
  have s: "sorted b" using assms by (simp add: strict_sorted_iff)
  have "\<not> j < bisect_left b x" using bisect_left_spec(2)[OF assms, of j x] j by auto
  then have le: "bisect_left b x \<le> j" by simp
  then have lt: "bisect_left b x < length b" using j by simp
  have "b ! bisect_left b x \<le> b ! j" by (rule sorted_nth_mono[OF s le j(1)])
  moreover have "x \<le> b ! bisect_left b x" using bisect_left_spec(3)[OF assms _ lt] by simp
  ultimately show "bisect_left b x < length b \<and> b ! bisect_left b x = x" using lt j by simp
qed

lemma bisect_insert_sorted:
  assumes "sorted_wrt (<) b" "x \<notin> set b"
  shows "sorted_wrt (<) (list_insert (bisect_left b x) x b)"
proof -
  let ?r = "bisect_left b x"
  have r: "?r \<le> length b" by (rule bisect_left_spec(1)[OF assms(1)])
  have lo: "\<forall>y\<in>set (take ?r b). y < x"
  proof
    fix y assume "y \<in> set (take ?r b)"
    then obtain i where "i < ?r" "y = b ! i" using r
      by (auto simp: in_set_conv_nth)
    then show "y < x" using bisect_left_spec(2)[OF assms(1)] by simp
  qed
  have hi: "\<forall>y\<in>set (drop ?r b). x < y"
  proof
    fix y assume y: "y \<in> set (drop ?r b)"
    then obtain i where i: "i < length b - ?r" "y = b ! (?r + i)"
      by (auto simp: in_set_conv_nth)
    then have "x \<le> y" using bisect_left_spec(3)[OF assms(1), of x "?r + i"] by simp
    moreover have "y \<in> set b" using y by (rule in_set_dropD)
    moreover have "x \<noteq> y" using \<open>y \<in> set b\<close> assms(2) by blast
    ultimately show "x < y" by simp
  qed
  have "sorted_wrt (<) (take ?r b @ drop ?r b)" using assms(1) by simp
  then have "sorted_wrt (<) (take ?r b)" "sorted_wrt (<) (drop ?r b)"
    "\<forall>u\<in>set (take ?r b). \<forall>v\<in>set (drop ?r b). u < v"
    unfolding sorted_wrt_append by blast+
  then show ?thesis using lo hi
    by (auto simp: list_insert_def sorted_wrt_append)
qed

lemma map_of_list_insert:
  assumes "length s = length b" "x \<notin> set b" "i \<le> length b"
  shows "map_of (zip (list_insert i x b) (list_insert i v s)) = (map_of (zip b s))(x \<mapsto> v)"
proof -
  have z: "zip (list_insert i x b) (list_insert i v s) = take i (zip b s) @ (x, v) # drop i (zip b s)"
    using assms by (simp add: list_insert_def take_zip drop_zip)
  have nx: "map_of (take i (zip b s)) x = None"
  proof -
    have "x \<notin> fst ` set (take i (zip b s))"
      using assms(2) by (auto dest!: in_set_takeD set_zip_leftD)
    then show ?thesis by (simp add: map_of_eq_None_iff)
  qed
  have split: "map_of (zip b s) = map_of (drop i (zip b s)) ++ map_of (take i (zip b s))"
    by (metis append_take_drop_id map_of_append)
  show ?thesis
  proof
    fix k
    show "map_of (zip (list_insert i x b) (list_insert i v s)) k = ((map_of (zip b s))(x \<mapsto> v)) k"
      using nx by (simp add: z split map_add_def split: option.splits)
  qed
qed

lemma bucket_nth_lookup:
  assumes "sorted_wrt (<) b" "length s = length b" "x \<in> set b"
  shows "map_of (zip b s) x = Some (s ! bisect_left b x)"
proof -
  have p: "bisect_left b x < length b" "b ! bisect_left b x = x"
    using bisect_present_iff[OF assms(1), of x] assms(3) by simp_all
  have d: "distinct b" using assms(1) by (simp add: strict_sorted_iff)
  have p': "bisect_left b x < length s" using p(1) assms(2) by simp
  have l: "length b = length s" using assms(2) by simp
  show ?thesis using map_of_zip_nth[OF l d p'] p(2) by simp
qed

lemma norm_index_in_range:
  "in_range k \<Longrightarrow> norm_index 400 (k div 250) = Some (bucket_of k)"
  unfolding in_range_def norm_index_def bucket_of_def by (auto; linarith)

lemma bucket_of_less: "in_range k \<Longrightarrow> bucket_of k < 400"
  unfolding in_range_def bucket_of_def by (auto; linarith)

lemma norm_index_out_of_range:
  "\<not> in_range k \<Longrightarrow> norm_index 400 (k div 250) = None"
  unfolding in_range_def norm_index_def by (auto; linarith)

lemma isnap_idx_in_range:
  assumes "wf_index ix" "in_range k"
  shows "isnap_idx ix k =
           Inr (k div 250, bisect_left (isnap_lists ix ! bucket_of k) k,
                k \<in> set (isnap_lists ix ! bucket_of k))"
proof -
  have s: "sorted_wrt (<) (isnap_lists ix ! bucket_of k)"
    using assms bucket_of_less by (simp add: wf_index_def)
  show ?thesis
    using assms bisect_present_iff[OF s, of k]
    by (simp add: isnap_idx_def wf_index_def list_getitem_def norm_index_in_range Let_def)
qed

lemma stored_None_iff:
  assumes "wf_index ix" "in_range k"
  shows "stored ix k = None \<longleftrightarrow> k \<notin> set (isnap_lists ix ! bucket_of k)"
proof -
  have "length (istep_lists ix ! bucket_of k) = length (isnap_lists ix ! bucket_of k)"
    using assms bucket_of_less by (simp add: wf_index_def)
  then have "fst ` set (zip (isnap_lists ix ! bucket_of k) (istep_lists ix ! bucket_of k))
               = set (isnap_lists ix ! bucket_of k)"
    by (metis map_fst_zip set_map)
  then show ?thesis by (simp add: stored_def map_of_eq_None_iff)
qed

lemma get_istep_stored:
  assumes "wf_index ix" "in_range k"
  shows "get_istep ix k = Inr (case stored ix k of None \<Rightarrow> UNDETERMINED | Some v \<Rightarrow> lazy_of v)"
proof (cases "k \<in> set (isnap_lists ix ! bucket_of k)")
  case False
  then have "stored ix k = None" using stored_None_iff[OF assms] by simp
  with False show ?thesis by (simp add: get_istep_def isnap_idx_in_range[OF assms])
next
  case True
  have b: "bucket_of k < 400" by (rule bucket_of_less[OF assms(2)])
  have s: "sorted_wrt (<) (isnap_lists ix ! bucket_of k)"
    and l: "length (istep_lists ix ! bucket_of k) = length (isnap_lists ix ! bucket_of k)"
    using assms(1) b by (simp_all add: wf_index_def)
  have st: "stored ix k = Some (istep_lists ix ! bucket_of k ! bisect_left (isnap_lists ix ! bucket_of k) k)"
    unfolding stored_def by (rule bucket_nth_lookup[OF s l True])
  have p: "bisect_left (isnap_lists ix ! bucket_of k) k < length (istep_lists ix ! bucket_of k)"
    using bisect_present_iff[OF s, of k] True l by simp
  have n: "norm_index (length (istep_lists ix ! bucket_of k))
             (int (bisect_left (isnap_lists ix ! bucket_of k) k))
           = Some (bisect_left (isnap_lists ix ! bucket_of k) k)"
    using p by (simp add: norm_index_def)
  show ?thesis
    using True assms(1)
    by (cases "istep_lists ix ! bucket_of k ! bisect_left (isnap_lists ix ! bucket_of k) k")
       (simp_all add: get_istep_def isnap_idx_in_range[OF assms] st list_getitem_def
          norm_index_in_range[OF assms(2)] n wf_index_def)
qed

lemma insert_idx_present:
  assumes "wf_index ix" "in_range k" "stored ix k \<noteq> None"
  shows "insert_idx ix k v = Inr ix"
  using assms stored_None_iff[OF assms(1,2)]
  by (simp add: insert_idx_def isnap_idx_in_range)

lemma insert_idx_absent:
  assumes "wf_index ix" "in_range k" "stored ix k = None"
  shows "\<exists>ix'. insert_idx ix k v = Inr ix' \<and> wf_index ix' \<and>
           (\<forall>k'. stored ix' k' = (if k' = k then Some v else stored ix k'))"
proof -
  let ?j = "bucket_of k"
  let ?b = "isnap_lists ix ! ?j" and ?s = "istep_lists ix ! ?j"
  let ?r = "bisect_left ?b k"
  define ix' where "ix' = ix\<lparr> isnap_lists := (isnap_lists ix)[?j := list_insert ?r k ?b],
                               istep_lists := (istep_lists ix)[?j := list_insert ?r v ?s] \<rparr>"
  have j: "?j < 400" by (rule bucket_of_less[OF assms(2)])
  have s: "sorted_wrt (<) ?b" and l: "length ?s = length ?b"
    using assms(1) j by (simp_all add: wf_index_def)
  have notin: "k \<notin> set ?b" using stored_None_iff[OF assms(1,2)] assms(3) by simp
  have r: "?r \<le> length ?b" by (rule bisect_left_spec(1)[OF s])
  have ins: "insert_idx ix k v = Inr ix'"
    using assms(1) notin
    by (simp add: insert_idx_def isnap_idx_in_range[OF assms(1,2)] bucket_update_def
          wf_index_def norm_index_in_range[OF assms(2)] ix'_def)
  have wf: "wf_index ix'"
    unfolding wf_index_def
  proof (intro conjI allI impI)
    fix i assume i: "i < (400::nat)"
    show "sorted_wrt (<) (isnap_lists ix' ! i)"
      using assms(1) i j bisect_insert_sorted[OF s notin]
      by (cases "i = ?j") (simp_all add: ix'_def wf_index_def)
    show "length (istep_lists ix' ! i) = length (isnap_lists ix' ! i)"
      using assms(1) i j l
      by (cases "i = ?j") (simp_all add: ix'_def wf_index_def list_insert_def)
  qed (use assms(1) in \<open>simp_all add: ix'_def wf_index_def\<close>)
  have st: "stored ix' k' = (if k' = k then Some v else stored ix k')" for k'
  proof (cases "bucket_of k' = ?j")
    case False
    then have "k' \<noteq> k" by auto
    with False show ?thesis by (simp add: stored_def ix'_def)
  next
    case True
    have "stored ix' k' = map_of (zip (list_insert ?r k ?b) (list_insert ?r v ?s)) k'"
      using True j assms(1) by (simp add: stored_def ix'_def wf_index_def)
    also have "\<dots> = ((map_of (zip ?b ?s))(k \<mapsto> v)) k'"
      by (simp only: map_of_list_insert[OF l notin r])
    finally show ?thesis using True by (simp add: stored_def)
  qed
  show ?thesis using ins wf st by blast
qed

lemma insert_idx_out_of_range:
  assumes "nlst ix = 400" "length (isnap_lists ix) = 400" "\<not> in_range k"
  shows "insert_idx ix k v = Inl IndexError" "get_istep ix k = Inl IndexError"
  using assms
  by (simp_all add: insert_idx_def get_istep_def isnap_idx_def list_getitem_def
        norm_index_out_of_range)

lemma wf_index_init: "wf_index Indexes_init"
  by (simp add: wf_index_def Indexes_init_def)

lemma stored_init: "in_range k \<Longrightarrow> stored Indexes_init k = None"
  using bucket_of_less[of k] by (simp add: stored_def Indexes_init_def)

lemma insert_all_stored:
  "wf_index ix \<Longrightarrow> insert_all ix h = Inr ix' \<Longrightarrow>
     wf_index ix' \<and>
     (\<forall>k. in_range k \<longrightarrow>
        stored ix' k = (case stored ix k of None \<Rightarrow> map_of h k | Some v \<Rightarrow> Some v))"
proof (induction h arbitrary: ix)
  case Nil
  then show ?case by (auto split: option.splits)
next
  case (Cons p rest)
  obtain k0 v0 where p: "p = (k0, v0)" by (cases p)
  from Cons.prems(2) p obtain ix1 where
    ix1: "insert_idx ix k0 v0 = Inr ix1" and rest: "insert_all ix1 rest = Inr ix'"
    by (auto split: sum.splits)
  have r0: "in_range k0"
  proof (rule ccontr)
    assume "\<not> in_range k0"
    then have "insert_idx ix k0 v0 = Inl IndexError"
      using Cons.prems(1) by (intro insert_idx_out_of_range) (simp_all add: wf_index_def)
    with ix1 show False by simp
  qed
  show ?case
  proof (cases "stored ix k0")
    case None
    from insert_idx_absent[OF Cons.prems(1) r0 None, of v0] ix1
    have wf1: "wf_index ix1"
      and st1: "\<And>k'. stored ix1 k' = (if k' = k0 then Some v0 else stored ix k')"
      by auto
    from Cons.IH[OF wf1 rest] show ?thesis
      using None by (auto simp: p st1 split: option.splits)
  next
    case (Some w)
    then have "insert_idx ix k0 v0 = Inr ix"
      using insert_idx_present[OF Cons.prems(1) r0] by simp
    with ix1 have eq: "ix1 = ix" by simp
    from Cons.IH[OF Cons.prems(1)] rest eq show ?thesis
      using Some by (auto simp: p split: option.splits)
  qed
qed

lemma built_index:
  assumes "insert_all Indexes_init h = Inr ix"
  shows "wf_index ix" and "in_range k \<Longrightarrow> stored ix k = map_of h k"
  using insert_all_stored[OF wf_index_init assms] stored_init by simp_all

subsection \<open>Claims about the index\<close>

text \<open>
  Claim C2, as amended. For every snapshot number \<open>isnap\<close> with
  \<open>0 \<le> isnap < 100000\<close>, \<open>insert(isnap, istep)\<close> and \<open>get_istep(isnap)\<close> return
  without an exception on every index built by \<open>insert\<close> calls from the initial one:
  the bucket \<open>isnap // 250\<close> lies inside the list of 400 buckets.
\<close>

theorem index_ops_defined_below_100000:
  assumes "insert_all Indexes_init h = Inr ix" and "0 \<le> isnap" and "isnap < 100000"
  shows "(\<exists>ix'. insert_idx ix isnap istep = Inr ix') \<and> (\<exists>r. get_istep ix isnap = Inr r)"
proof -
  have wf: "wf_index ix" by (rule built_index(1)[OF assms(1)])
  have r: "in_range isnap" using assms(2,3) by (simp add: in_range_def)
  have "\<exists>ix'. insert_idx ix isnap istep = Inr ix'"
  proof (cases "stored ix isnap")
    case None
    from insert_idx_absent[OF wf r None] show ?thesis by blast
  next
    case (Some w)
    then show ?thesis using insert_idx_present[OF wf r] by simp
  qed
  moreover have "\<exists>r. get_istep ix isnap = Inr r"
    using get_istep_stored[OF wf r] by simp
  ultimately show ?thesis by simp
qed

lemma insert_7_3:
  "insert_all Indexes_init [(7, Some 3)] =
     Inr (Indexes_init\<lparr> isnap_lists := (replicate 400 [])[0 := [7]],
                         istep_lists := (replicate 400 [])[0 := [Some 3]] \<rparr>)"
  by (simp add: insert_idx_def isnap_idx_def Indexes_init_def list_getitem_def norm_index_def
        bisect_left_def bisect_loop.simps bucket_update_def list_insert_def)

theorem index_ops_defined_below_100000_witness:
  "(\<exists>ix'. insert_idx (Indexes_init\<lparr> isnap_lists := (replicate 400 [])[0 := [7]],
                                      istep_lists := (replicate 400 [])[0 := [Some 3]] \<rparr>)
             99999 (Some 12) = Inr ix') \<and>
   (\<exists>r. get_istep (Indexes_init\<lparr> isnap_lists := (replicate 400 [])[0 := [7]],
                                    istep_lists := (replicate 400 [])[0 := [Some 3]] \<rparr>)
           99999 = Inr r)"
  using index_ops_defined_below_100000[OF insert_7_3, of 99999 "Some 12"] by simp

text \<open>
  Claim C2 as stated fails: snapshot number 100000 is non-negative, and both operations
  raise IndexError on the freshly built index, since \<open>100000 // 250 = 400\<close> is no bucket.
\<close>

theorem index_bucket_overflow_counterexample:
  "insert_idx Indexes_init 100000 (Some 0) = Inl IndexError \<and>
   get_istep Indexes_init 100000 = Inl IndexError"
  by (simp add: insert_idx_def get_istep_def isnap_idx_def Indexes_init_def list_getitem_def
        norm_index_def)

text \<open>
  Claim C3, as amended. On an index built from the initial one by the \<open>insert\<close> calls
  \<open>h\<close> (oldest first), and for \<open>-100000 \<le> isnap < 100000\<close>: \<open>get_istep(isnap)\<close>
  returns the step number of the first call for \<open>isnap\<close>, and the sentinel when there
  was none; and when there was none, \<open>insert(isnap, istep)\<close> makes \<open>get_istep(isnap)\<close>
  return \<open>istep\<close>, after which \<open>insert(isnap, istep')\<close> leaves the index as it is.
\<close>

theorem index_first_writer_wins:
  assumes "insert_all Indexes_init h = Inr ix"
    and "- 100000 \<le> isnap" and "isnap < 100000"
  shows "get_istep ix isnap =
           Inr (case map_of h isnap of None \<Rightarrow> UNDETERMINED | Some istep0 \<Rightarrow> lazy_of istep0) \<and>
         (isnap \<notin> fst ` set h \<longrightarrow>
           get_istep ix isnap = Inr UNDETERMINED \<and>
           (\<exists>ix1. insert_idx ix isnap istep = Inr ix1 \<and>
                  get_istep ix1 isnap = Inr (lazy_of istep) \<and>
                  insert_idx ix1 isnap istep' = Inr ix1))"
proof -
  have wf: "wf_index ix" by (rule built_index(1)[OF assms(1)])
  have r: "in_range isnap" using assms(2,3) by (simp add: in_range_def)
  have st: "stored ix isnap = map_of h isnap" by (rule built_index(2)[OF assms(1) r])
  have g: "get_istep ix isnap =
           Inr (case map_of h isnap of None \<Rightarrow> UNDETERMINED | Some istep0 \<Rightarrow> lazy_of istep0)"
    using get_istep_stored[OF wf r] st by simp
  have "get_istep ix isnap = Inr UNDETERMINED \<and>
           (\<exists>ix1. insert_idx ix isnap istep = Inr ix1 \<and>
                  get_istep ix1 isnap = Inr (lazy_of istep) \<and>
                  insert_idx ix1 isnap istep' = Inr ix1)"
    if "isnap \<notin> fst ` set h"
  proof -
    from that have none: "map_of h isnap = None" by (simp add: map_of_eq_None_iff)
    then have sn: "stored ix isnap = None" using st by simp
    from insert_idx_absent[OF wf r sn, of istep] obtain ix1 where
      i1: "insert_idx ix isnap istep = Inr ix1" and wf1: "wf_index ix1"
      and st1: "stored ix1 isnap = Some istep" by auto
    have "get_istep ix1 isnap = Inr (lazy_of istep)"
      using get_istep_stored[OF wf1 r] st1 by simp
    moreover have "insert_idx ix1 isnap istep' = Inr ix1"
      using insert_idx_present[OF wf1 r] st1 by simp
    ultimately show ?thesis using g none i1 by simp
  qed
  with g show ?thesis by blast
qed

theorem index_first_writer_wins_witness:
  "get_istep (Indexes_init\<lparr> isnap_lists := (replicate 400 [])[0 := [7]],
                            istep_lists := (replicate 400 [])[0 := [Some 3]] \<rparr>) 7 = Inr (Val 3) \<and>
   get_istep (Indexes_init\<lparr> isnap_lists := (replicate 400 [])[0 := [7]],
                            istep_lists := (replicate 400 [])[0 := [Some 3]] \<rparr>) (- 1)
     = Inr UNDETERMINED \<and>
   (\<exists>ix1. insert_idx (Indexes_init\<lparr> isnap_lists := (replicate 400 [])[0 := [7]],
                                     istep_lists := (replicate 400 [])[0 := [Some 3]] \<rparr>)
             (- 1) None = Inr ix1 \<and>
          get_istep ix1 (- 1) = Inr PyNone \<and>
          insert_idx ix1 (- 1) (Some 4) = Inr ix1)"
  using index_first_writer_wins[OF insert_7_3, of 7 None None]
        index_first_writer_wins[OF insert_7_3, of "- 1" None "Some 4"]
  by simp

text \<open>
  Claim C3 as stated fails: snapshot number 123456 was never inserted into the fresh
  index, and its lookup raises IndexError instead of returning the sentinel.
\<close>

theorem index_lookup_unknown_counterexample:
  "get_istep Indexes_init 123456 \<noteq> Inr UNDETERMINED \<and>
   get_istep Indexes_init 123456 = Inl IndexError"
  by (simp add: get_istep_def isnap_idx_def Indexes_init_def list_getitem_def norm_index_def)

section \<open>Verification of the registries\<close>

lemma keeps_refl: "keeps s s"
  by (simp add: keeps_def extends_def)

lemma keeps_trans: "keeps s s1 \<Longrightarrow> keeps s1 s2 \<Longrightarrow> keeps s s2"
  unfolding keeps_def extends_def by (auto; fastforce)

lemma wf_index_insert:
  assumes "wf_index ix" "insert_idx ix k v = Inr ix'"
  shows "wf_index ix'"
proof (cases "in_range k")
  case False
  then have "insert_idx ix k v = Inl IndexError"
    using assms(1) by (intro insert_idx_out_of_range) (simp_all add: wf_index_def)
  with assms(2) show ?thesis by simp
next
  case True
  show ?thesis
  proof (cases "stored ix k")
    case None
    from insert_idx_absent[OF assms(1) True None, of v] assms(2) show ?thesis by auto
  next
    case (Some w)
    then show ?thesis using insert_idx_present[OF assms(1) True, of v] assms by simp
  qed
qed

lemma keeps_isteps:
  assumes "registry_inv s \<Longrightarrow> wf_index ix"
  shows "keeps s (s\<lparr> isteps := ix \<rparr>)"
  using assms by (simp add: keeps_def extends_def registry_inv_def)

lemma keeps_calls: "keeps s (s\<lparr> calls := c \<rparr>)"
  by (simp add: keeps_def extends_def registry_inv_def)

lemma keeps_log_call: "keeps s (log_call c s)"
  unfolding log_call_def by (rule keeps_calls)

lemma keeps_heap_update:
  assumes "is_empty obj = is_empty (heap s ! r)" "istep_attr obj = istep_attr (heap s ! r)"
  shows "keeps s (s\<lparr> heap := (heap s)[r := obj] \<rparr>)"
proof -
  have a: "is_empty ((heap s)[r := obj] ! q) = is_empty (heap s ! q)"
          "istep_attr ((heap s)[r := obj] ! q) = istep_attr (heap s ! q)" if "q < length (heap s)" for q
    using assms that by (cases "q = r"; simp)+
  show ?thesis
    unfolding keeps_def extends_def registry_inv_def
    by (simp add: a) 
qed

lemma keeps_isnap_setter: "keeps s (isnap_setter r n s)"
  unfolding isnap_setter_def by (rule keeps_heap_update) simp_all

lemma keeps_alloc_empty: "keeps s (snd (alloc EmptyStep_init s))"
  unfolding keeps_def extends_def registry_inv_def alloc_def
  by (auto simp: nth_append EmptyStep_init_def less_Suc_eq)

lemma keeps_alloc_step:
  assumes "steps s i = None" "0 \<le> i"
  shows "keeps s ((snd (alloc (Step_init i) s))\<lparr> steps := (steps s)(i \<mapsto> length (heap s)) \<rparr>)"
  unfolding keeps_def extends_def
proof (intro conjI impI allI)
  assume inv: "registry_inv s"
  show "registry_inv ((snd (alloc (Step_init i) s))\<lparr> steps := (steps s)(i \<mapsto> length (heap s)) \<rparr>)"
    unfolding registry_inv_def
  proof (intro conjI allI impI)
    fix k r assume "steps (snd (alloc (Step_init i) s)\<lparr>steps := (steps s)(i \<mapsto> length (heap s))\<rparr>) k = Some r"
    then have c: "(k = i \<and> r = length (heap s)) \<or> (k \<noteq> i \<and> steps s k = Some r)"
      by (auto split: if_splits)
    then show "r < length (heap (snd (alloc (Step_init i) s)\<lparr>steps := (steps s)(i \<mapsto> length (heap s))\<rparr>))"
      using inv by (auto simp: alloc_def registry_inv_def less_Suc_eq)
    from c show "\<not> is_empty (heap (snd (alloc (Step_init i) s)\<lparr>steps := (steps s)(i \<mapsto> length (heap s))\<rparr>) ! r)"
      using inv by (auto simp: alloc_def registry_inv_def nth_append Step_init_def)
    from c show "istep_attr (heap (snd (alloc (Step_init i) s)\<lparr>steps := (steps s)(i \<mapsto> length (heap s))\<rparr>) ! r) = Some k"
      using inv by (auto simp: alloc_def registry_inv_def nth_append Step_init_def)
    from c show "0 \<le> k" using inv assms(2) by (auto simp: registry_inv_def)
  next
    fix r assume r: "r < length (heap (snd (alloc (Step_init i) s)\<lparr>steps := (steps s)(i \<mapsto> length (heap s))\<rparr>))"
    then have c: "r < length (heap s) \<or> r = length (heap s)" by (auto simp: alloc_def)
    {
      assume ne: "\<not> is_empty (heap (snd (alloc (Step_init i) s)\<lparr>steps := (steps s)(i \<mapsto> length (heap s))\<rparr>) ! r)"
      show "\<exists>k. istep_attr (heap (snd (alloc (Step_init i) s)\<lparr>steps := (steps s)(i \<mapsto> length (heap s))\<rparr>) ! r) = Some k \<and>
                steps (snd (alloc (Step_init i) s)\<lparr>steps := (steps s)(i \<mapsto> length (heap s))\<rparr>) k = Some r"
      proof (cases "r = length (heap s)")
        case True
        then show ?thesis by (simp add: alloc_def Step_init_def)
      next
        case False
        with c have lt: "r < length (heap s)" by simp
        with ne have "\<not> is_empty (heap s ! r)" by (simp add: alloc_def nth_append)
        with inv lt obtain k where k: "istep_attr (heap s ! r) = Some k" "steps s k = Some r"
          unfolding registry_inv_def by blast
        with assms(1) have "k \<noteq> i" by auto
        with k lt show ?thesis by (auto simp: alloc_def nth_append)
      qed
    }
    {
      assume em: "is_empty (heap (snd (alloc (Step_init i) s)\<lparr>steps := (steps s)(i \<mapsto> length (heap s))\<rparr>) ! r)"
      show "istep_attr (heap (snd (alloc (Step_init i) s)\<lparr>steps := (steps s)(i \<mapsto> length (heap s))\<rparr>) ! r) = None"
        using c em inv by (auto simp: alloc_def nth_append Step_init_def registry_inv_def)
    }
  next
    show "snaps (snd (alloc (Step_init i) s)\<lparr>steps := (steps s)(i \<mapsto> length (heap s))\<rparr>) = Map.empty"
      using inv by (simp add: alloc_def registry_inv_def)
    show "wf_index (isteps (snd (alloc (Step_init i) s)\<lparr>steps := (steps s)(i \<mapsto> length (heap s))\<rparr>))"
      using inv by (simp add: alloc_def registry_inv_def)
  qed
next
  fix k r assume "steps s k = Some r"
  then show "steps (snd (alloc (Step_init i) s)\<lparr>steps := (steps s)(i \<mapsto> length (heap s))\<rparr>) k = Some r"
    using assms(1) by auto
qed (auto simp: alloc_def nth_append)

lemma steps_missing_keeps: "keeps s (snd (steps_missing k s))"
proof (cases "k = KNone")
  case True
  then show ?thesis using keeps_alloc_empty[of s]
    by (simp add: steps_missing_def alloc_def)
next
  case False
  show ?thesis
  proof (cases "py_int k")
    case (Inl err)
    then show ?thesis using False
      by (cases err) (simp_all add: steps_missing_def keeps_refl)
  next
    case (Inr i)
    show ?thesis
    proof (cases "i < 0")
      case True
      then show ?thesis using False Inr by (simp add: steps_missing_def keeps_refl)
    next
      case nn: False
      show ?thesis
      proof (cases "steps s i")
        case None
        have "keeps s ((snd (alloc (Step_init i) s))\<lparr> steps := (steps s)(i \<mapsto> length (heap s)) \<rparr>)"
          using nn by (intro keeps_alloc_step[OF None]) simp
        then show ?thesis using False Inr nn None
          by (simp add: steps_missing_def alloc_def Let_def)
      next
        case (Some r)
        then show ?thesis using False Inr nn
          by (simp add: steps_missing_def keeps_refl)
      qed
    qed
  qed
qed

lemma steps_item_keeps: "keeps s (snd (steps_item k s))"
  using steps_missing_keeps[of s k]
  by (simp add: steps_item_def keeps_refl split: option.splits)

lemma steps_getitem_keeps: "keeps s (snd (steps_getitem k s))"
  using steps_item_keeps[of s k]
  by (cases k) (auto simp: steps_getitem_def keeps_refl split: sum.splits prod.splits)

lemma snaps_bind_keeps: "keeps s (snd (snaps_bind n v s))"
proof (cases "insert_idx (isteps s) n v")
  case (Inl err)
  then show ?thesis by (simp add: snaps_bind_def keeps_refl)
next
  case (Inr ix)
  have k1: "keeps s (s\<lparr> isteps := ix \<rparr>)"
    by (rule keeps_isteps) (use Inr wf_index_insert in \<open>auto simp: registry_inv_def\<close>)
  obtain res s' where it: "steps_item (key_of_istep v) (s\<lparr> isteps := ix \<rparr>) = (res, s')"
    by (cases "steps_item (key_of_istep v) (s\<lparr> isteps := ix \<rparr>)")
  have k2: "keeps (s\<lparr> isteps := ix \<rparr>) s'"
    using steps_item_keeps[of "s\<lparr> isteps := ix \<rparr>" "key_of_istep v"] it by simp
  show ?thesis
  proof (cases res)
    case (Inl err)
    then show ?thesis using Inr it keeps_trans[OF k1 k2] by (simp add: snaps_bind_def)
  next
    case (Inr r)
    have "keeps s (isnap_setter r n s')"
      using keeps_trans[OF keeps_trans[OF k1 k2] keeps_isnap_setter] .
    then show ?thesis using \<open>insert_idx (isteps s) n v = Inr ix\<close> it Inr
      by (simp add: snaps_bind_def)
  qed
qed

lemma scan_loop_keeps: "keeps s (snd (scan_loop e n pars cur s))"
proof (induction pars arbitrary: cur s)
  case Nil
  show ?case
  proof (cases "insert_idx (isteps s) n None")
    case (Inl err)
    then show ?thesis by (simp add: keeps_refl)
  next
    case (Inr ix)
    have k1: "keeps s (s\<lparr> isteps := ix \<rparr>)"
      by (rule keeps_isteps) (use Inr wf_index_insert in \<open>auto simp: registry_inv_def\<close>)
    show ?thesis using Inr keeps_trans[OF k1 steps_item_keeps[of "s\<lparr> isteps := ix \<rparr>" cur]]
      by simp
  qed
next
  case (Cons par pars)
  let ?s1 = "log_call (Probe par n) s"
  have k1: "keeps s ?s1" by (rule keeps_log_call)
  show ?case
  proof (cases "probe e par n")
    case None
    then show ?thesis using keeps_trans[OF k1 Cons.IH[where cur=KNone and s="?s1"]] by simp
  next
    case (Some i)
    obtain res s2 where b: "snaps_bind n (Some i) ?s1 = (res, s2)"
      by (cases "snaps_bind n (Some i) ?s1")
    have k2: "keeps ?s1 s2" using snaps_bind_keeps[of ?s1 n "Some i"] b by simp
    show ?thesis
    proof (cases res)
      case (Inl err)
      then show ?thesis using Some b keeps_trans[OF k1 k2] by simp
    next
      case (Inr u)
      then show ?thesis
        using Some b keeps_trans[OF keeps_trans[OF k1 k2] steps_item_keeps[of s2 "KInt i"]]
        by simp
    qed
  qed
qed

lemma snaps_missing_keeps: "keeps s (snd (snaps_missing e n s))"
proof (cases "get_istep (isteps s) n")
  case (Inl err)
  then show ?thesis by (simp add: snaps_missing_def keeps_refl)
next
  case (Inr l)
  then show ?thesis
    using scan_loop_keeps[of s e n "scan s" KObj] steps_item_keeps[of s]
    by (cases l) (simp_all add: snaps_missing_def)
qed

lemma snaps_getitem_keeps: "keeps s (snd (snaps_getitem e k s))"
proof (cases k)
  case (KInt i)
  then show ?thesis using snaps_missing_keeps[of s e i]
    by (auto simp: snaps_getitem_def split: sum.splits prod.splits)
qed (auto simp: snaps_getitem_def keeps_refl split: sum.splits prod.splits)

lemma gen_item_keeps: "keeps s (snd (gen_item e reg k s))"
  using steps_item_keeps[of s] snaps_missing_keeps[of s e]
  by (cases reg) (simp_all add: gen_item_def)

lemma gen_iterate_keeps: "keeps s (snd (snd (gen_iterate e reg ks s)))"
proof (induction ks arbitrary: s)
  case Nil
  show ?case by (simp add: keeps_refl)
next
  case (Cons k ks)
  obtain res s' where gi: "gen_item e reg k s = (res, s')" by (cases "gen_item e reg k s")
  have k1: "keeps s s'" using gen_item_keeps[of s e reg k] gi by simp
  show ?case
  proof (cases res)
    case (Inl err)
    then show ?thesis using gi k1 by simp
  next
    case (Inr r)
    obtain res2 g s'' where it: "gen_iterate e reg ks s' = (res2, g, s'')"
      by (cases "gen_iterate e reg ks s'")
    have "keeps s' s''" using Cons.IH[of s'] it by simp
    then have "keeps s s''" using k1 keeps_trans by blast
    then show ?thesis using gi Inr it by (cases res2) simp_all
  qed
qed

lemma iterate_keeps: "keeps s (snd (snd (iterate e g s)))"
  using gen_iterate_keeps by (cases g) (simp add: iterate_def)

lemma search_loop_keeps: "keeps s (snd (search_loop e si cur n s))"
proof (induction e si cur n s rule: search_loop.induct)
  case (1 e si cur n s)
  show ?case
  proof (cases "(case cur of None \<Rightarrow> True | Some c \<Rightarrow> c < si) \<and> n < 99999")
    case False
    have "search_loop e si cur n s = (Inr cur, s)"
      by (subst search_loop.simps) (simp only: False if_False)
    then show ?thesis by (simp add: keeps_refl)
  next
    case True
    obtain res s1 where sm: "snaps_missing e (n + 1) s = (res, s1)"
      by (cases "snaps_missing e (n + 1) s")
    have k1: "keeps s s1" using snaps_missing_keeps[of s e "n + 1"] sm by simp
    show ?thesis
    proof (cases res)
      case (Inl err)
      then show ?thesis using True sm k1 by (subst search_loop.simps) simp
    next
      case (Inr r)
      define cur' where "cur' = (if is_empty (heap s1 ! r) then None else istep_attr (heap s1 ! r))"
      obtain res2 s2 where sb: "snaps_bind (n + 1) cur' s1 = (res2, s2)"
        by (cases "snaps_bind (n + 1) cur' s1")
      have k2: "keeps s1 s2" using snaps_bind_keeps[of s1 "n + 1" cur'] sb by simp
      show ?thesis
      proof (cases res2)
        case (Inl err)
        then show ?thesis using True sm Inr sb keeps_trans[OF k1 k2]
          by (subst search_loop.simps) (simp add: cur'_def[symmetric] Let_def)
      next
        case Inr2: (Inr u)
        have "keeps s2 (snd (search_loop e si cur' (n + 1) s2))"
          using "1.IH"[OF True sm[symmetric] Inr cur'_def sb[symmetric] Inr2] .
        then have "keeps s (snd (search_loop e si cur' (n + 1) s2))"
          using keeps_trans[OF keeps_trans[OF k1 k2]] by blast
        then show ?thesis using True sm Inr sb Inr2
          by (subst search_loop.simps) (simp add: cur'_def[symmetric] Let_def)
      qed
    qed
  qed
qed

lemma step_isnap_keeps: "keeps s (snd (step_isnap e r s))"
proof (cases "is_empty (heap s ! r) \<or> isnap_attr (heap s ! r) \<noteq> UNDETERMINED")
  case True
  then show ?thesis by (auto simp: step_isnap_def keeps_refl Let_def)
next
  case False
  show ?thesis
  proof (cases "istep_attr (heap s ! r)")
    case None
    then show ?thesis using False by (simp add: step_isnap_def keeps_refl Let_def)
  next
    case (Some si)
    obtain res s1 where sl: "search_loop e si None (- 1) s = (res, s1)"
      by (cases "search_loop e si None (- 1) s")
    have k1: "keeps s s1" using search_loop_keeps[of s e si None "- 1"] sl by simp
    show ?thesis
    proof (cases res)
      case (Inl err)
      then show ?thesis using False Some sl k1 by (simp add: step_isnap_def Let_def)
    next
      case (Inr cur)
      have k2: "keeps s1 (s1\<lparr> heap := (heap s1)[r := (heap s1 ! r)\<lparr> isnap_attr := PyNone \<rparr>] \<rparr>)"
        by (rule keeps_heap_update) simp_all
      show ?thesis using False Some sl Inr k1 keeps_trans[OF k1 k2]
        by (simp add: step_isnap_def Let_def)
    qed
  qed
qed

lemma keeps_fields_store: "keeps s (fields_store par_type name hdr flds r s)"
  unfolding fields_store_def by (rule keeps_heap_update) simp_all

lemma Fields_missing_keeps: "keeps s (snd (Fields_missing e depth r name s))"
proof (induction depth arbitrary: s)
  case 0
  show ?case by (simp add: keeps_refl)
next
  case (Suc depth)
  show ?case
  proof (cases "FIELD_VAR_LIST e name")
    case None
    then show ?thesis by (simp add: keeps_refl)
  next
    case (Some par_type)
    obtain res s1 where si: "step_isnap e r s = (res, s1)" by (cases "step_isnap e r s")
    have k1: "keeps s s1" using step_isnap_keeps[of s e r] si by simp
    show ?thesis
    proof (cases res)
      case (Inl err)
      then show ?thesis using Some si k1 by simp
    next
      case (Inr sn)
      show ?thesis
      proof (cases "file_number sn")
        case Inl2: (Inl err)
        then show ?thesis using Some si Inr k1 by simp
      next
        case Inr2: (Inr num)
        have k2: "keeps s (log_call (Parse par_type num) s1)"
          using keeps_trans[OF k1 keeps_log_call] .
        show ?thesis
        proof (cases "parse e par_type num")
          case None
          then show ?thesis using Some si Inr Inr2 k2 by simp
        next
          case Some2: (Some pr)
          obtain hdr flds where pr: "pr = (hdr, flds)" by (cases pr)
          define s3 where "s3 = fields_store par_type name hdr flds r (log_call (Parse par_type num) s1)"
          have k3: "keeps s s3"
            unfolding s3_def by (rule keeps_trans[OF k2 keeps_fields_store])
          have "keeps s (snd (Fields_missing e depth r name s3))"
            using keeps_trans[OF k3 Suc.IH[of s3]] .
          then show ?thesis using Some si Inr Inr2 Some2 pr k3
            by (simp add: Let_def s3_def[symmetric] split: option.splits)
        qed
      qed
    qed
  qed
qed

lemma Fields_getitem_keeps: "keeps s (snd (Fields_getitem e depth r name s))"
  using Fields_missing_keeps[of s e depth r name]
  by (simp add: Fields_getitem_def keeps_refl split: option.splits)

lemma keeps_irsnap_setter: "keeps s (irsnap_setter r n s)"
  unfolding irsnap_setter_def by (rule keeps_heap_update) simp_all

lemma keeps_itsnap_setter: "keeps s (itsnap_setter r n s)"
  unfolding itsnap_setter_def by (rule keeps_heap_update) simp_all

lemma keeps_set_header: "keeps s (set_header r v s)"
  unfolding set_header_def by (rule keeps_heap_update) simp_all

lemma keeps_tseries_attr: "keeps s (s\<lparr> tseries_attr := v \<rparr>)"
  by (simp add: keeps_def extends_def registry_inv_def)

lemma keeps_rprof_attr: "keeps s (s\<lparr> rprof_attr := v \<rparr>)"
  by (simp add: keeps_def extends_def registry_inv_def)

lemma tseries_loop_keeps: "keeps s (snd (tseries_loop rows n s))"
proof (induction rows arbitrary: n s)
  case Nil
  show ?case by (simp add: keeps_refl)
next
  case (Cons t0 rows)
  obtain i where i: "py_int (KFloat t0) = Inr i" by simp
  obtain res s' where it: "steps_item (KInt i) s = (res, s')" by (cases "steps_item (KInt i) s")
  have k1: "keeps s s'" using steps_item_keeps[of s "KInt i"] it by simp
  show ?case
  proof (cases res)
    case (Inl err)
    then show ?thesis using i it k1 by simp
  next
    case (Inr r)
    have "keeps s (snd (tseries_loop rows (n + 1) (itsnap_setter r n s')))"
      using keeps_trans[OF keeps_trans[OF k1 keeps_itsnap_setter] Cons.IH] .
    then show ?thesis using i it Inr by simp
  qed
qed

lemma rprof_loop_keeps: "keeps s (snd (rprof_loop rows n s))"
proof (induction rows arbitrary: n s)
  case Nil
  show ?case by (simp add: keeps_refl)
next
  case (Cons i rows)
  obtain res s' where it: "steps_item (KInt i) s = (res, s')" by (cases "steps_item (KInt i) s")
  have k1: "keeps s s'" using steps_item_keeps[of s "KInt i"] it by simp
  show ?case
  proof (cases res)
    case (Inl err)
    then show ?thesis using it k1 by simp
  next
    case (Inr r)
    have "keeps s (snd (rprof_loop rows (n + 1) (irsnap_setter r n s')))"
      using keeps_trans[OF keeps_trans[OF k1 keeps_irsnap_setter] Cons.IH] .
    then show ?thesis using it Inr by simp
  qed
qed

lemma sdat_tseries_keeps: "keeps s (snd (sdat_tseries e s))"
proof (cases "tseries_attr s = UNDETERMINED")
  case False
  then show ?thesis by (simp add: sdat_tseries_def keeps_refl)
next
  case True
  have k: "keeps s ((log_call TimeSeries s)\<lparr> tseries_attr := v \<rparr>)" for v
    using keeps_trans[OF keeps_log_call keeps_tseries_attr] .
  show ?thesis
  proof (cases "time_series e")
    case None
    then show ?thesis using True k by (simp add: sdat_tseries_def)
  next
    case (Some rows)
    then show ?thesis using True keeps_trans[OF k tseries_loop_keeps]
      by (simp add: sdat_tseries_def)
  qed
qed

lemma sdat_rprof_keeps: "keeps s (snd (sdat_rprof e s))"
proof (cases "rprof_attr s")
  case True
  then show ?thesis by (simp add: sdat_rprof_def keeps_refl)
next
  case False
  show ?thesis
  proof (cases "rprof_data e")
    case None
    then show ?thesis using False keeps_log_call by (simp add: sdat_rprof_def)
  next
    case (Some rows)
    obtain res s' where l: "rprof_loop rows 0 (log_call RadialProfiles s) = (res, s')"
      by (cases "rprof_loop rows 0 (log_call RadialProfiles s)")
    have k1: "keeps s s'"
      using keeps_trans[OF keeps_log_call rprof_loop_keeps[of "log_call RadialProfiles s" rows 0]] l
      by simp
    show ?thesis using False Some l k1 keeps_trans[OF k1 keeps_rprof_attr]
      by (cases res) (simp_all add: sdat_rprof_def)
  qed
qed

lemma step_irsnap_keeps: "keeps s (snd (step_irsnap e r s))"
proof (cases "is_empty (heap s ! r)")
  case True
  then show ?thesis by (simp add: step_irsnap_def keeps_refl)
next
  case False
  obtain res s1 where l: "sdat_rprof e s = (res, s1)" by (cases "sdat_rprof e s")
  have k1: "keeps s s1" using sdat_rprof_keeps[of s e] l by simp
  have k2: "keeps s1 (s1\<lparr> heap := (heap s1)[r := (heap s1 ! r)\<lparr> irsnap_attr := PyNone \<rparr>] \<rparr>)"
    by (rule keeps_heap_update) simp_all
  show ?thesis using False l k1 keeps_trans[OF k1 k2]
    by (cases res) (simp_all add: step_irsnap_def Let_def)
qed

lemma step_itsnap_keeps: "keeps s (snd (step_itsnap e r s))"
proof (cases "is_empty (heap s ! r)")
  case True
  then show ?thesis by (simp add: step_itsnap_def keeps_refl)
next
  case False
  obtain res s1 where l: "sdat_tseries e s = (res, s1)" by (cases "sdat_tseries e s")
  have k1: "keeps s s1" using sdat_tseries_keeps[of s e] l by simp
  have k2: "keeps s1 (s1\<lparr> heap := (heap s1)[r := (heap s1 ! r)\<lparr> itsnap_attr := PyNone \<rparr>] \<rparr>)"
    by (rule keeps_heap_update) simp_all
  show ?thesis using False l k1 keeps_trans[OF k1 k2]
    by (cases res) (simp_all add: step_itsnap_def Let_def)
qed

lemma header_loop_keeps: "keeps s (snd (header_loop e r pars s))"
proof (induction pars arbitrary: s)
  case Nil
  show ?case by (simp add: keeps_refl)
next
  case (Cons par pars)
  obtain res s1 where si: "step_isnap e r s = (res, s1)" by (cases "step_isnap e r s")
  have k1: "keeps s s1" using step_isnap_keeps[of s e r] si by simp
  show ?case
  proof (cases res)
    case (Inl err)
    then show ?thesis using si k1 by simp
  next
    case (Inr sn)
    show ?thesis
    proof (cases "file_number sn")
      case Inl2: (Inl err)
      then show ?thesis using si Inr k1 by simp
    next
      case Inr2: (Inr num)
      have k2: "keeps s (log_call (Header par num) s1)"
        using keeps_trans[OF k1 keeps_log_call] .
      show ?thesis
      proof (cases "parse_header e par num")
        case None
        then show ?thesis using si Inr Inr2 keeps_trans[OF k2 Cons.IH] by simp
      next
        case (Some hdr)
        then show ?thesis using si Inr Inr2 keeps_trans[OF k2 keeps_set_header] by simp
      qed
    qed
  qed
qed

lemma Fields_geom_keeps: "keeps s (snd (Fields_geom e r s))"
proof -
  define pre where "pre = (if is_undetermined (fields_header (heap s ! r))
            then header_loop e r (scan s) (set_header r PyNone s)
            else (Inr (), s))"
  obtain res s1 where pre_eq: "pre = (res, s1)" by (cases pre)
  have k1: "keeps s s1"
  proof (cases "is_undetermined (fields_header (heap s ! r))")
    case True
    then have "s1 = snd (header_loop e r (scan s) (set_header r PyNone s))"
      using pre_eq by (simp add: pre_def)
    then show ?thesis using keeps_trans[OF keeps_set_header header_loop_keeps] by simp
  next
    case False
    then show ?thesis using pre_eq by (simp add: pre_def keeps_refl)
  qed
  have unf: "Fields_geom e r s =
      (case pre of
        (Inl err, s1) \<Rightarrow> (Inl err, s1)
      | (Inr u, s1) \<Rightarrow>
          (case fields_geom (heap s1 ! r) of
             Some g \<Rightarrow> (Inr g, s1)
           | None \<Rightarrow>
               (case fields_header (heap s1 ! r) of
                  Val hdr \<Rightarrow>
                    (case Geometry_init (numpy e) hdr (config e) of
                       (Inl err, hdr') \<Rightarrow> (Inl err, set_header r (Val hdr') s1)
                     | (Inr g, hdr') \<Rightarrow>
                         (Inr g,
                          s1\<lparr> heap := (heap s1)[r := (heap s1 ! r)
                                 \<lparr> fields_header := Val hdr', fields_geom := Some g \<rparr>] \<rparr>))
                | _ \<Rightarrow> (Inl TypeError, s1))))"
    unfolding Fields_geom_def pre_def ..
  have k2: "keeps s1 (s1\<lparr> heap := (heap s1)[r := (heap s1 ! r)
                                 \<lparr> fields_header := v, fields_geom := w \<rparr>] \<rparr>)" for v w
    by (rule keeps_heap_update) simp_all
  show ?thesis
    unfolding unf pre_eq
    using k1 keeps_trans[OF k1 keeps_set_header] keeps_trans[OF k1 k2]
    by (auto split: sum.splits option.splits lazy.splits prod.splits)
qed

lemma exec_keeps: "keeps s (exec e opn s)"
  by (cases opn)
     (simp_all add: exec_def steps_getitem_keeps snaps_getitem_keeps snaps_bind_keeps
        iterate_keeps step_isnap_keeps keeps_isnap_setter Fields_getitem_keeps keeps_refl
        steps_setitem_def snaps_setitem_def Fields_geom_keeps sdat_tseries_keeps
        sdat_rprof_keeps step_irsnap_keeps step_itsnap_keeps keeps_irsnap_setter
        keeps_itsnap_setter)

lemma foldl_exec_keeps: "keeps s (foldl (\<lambda>t opn. exec e opn t) s ops)"
proof (induction ops arbitrary: s)
  case Nil
  show ?case by (simp add: keeps_refl)
next
  case (Cons opn ops)
  show ?case using keeps_trans[OF exec_keeps Cons.IH] by simp
qed

lemma exec_all_keeps: "keeps s (exec_all e ops s)"
  unfolding exec_all_def by (rule foldl_exec_keeps)

lemma registry_inv_init: "registry_inv (sdat_init sc)"
  by (simp add: registry_inv_def sdat_init_def wf_index_init)

lemma registry_inv_exec_all: "registry_inv (exec_all e ops (sdat_init sc))"
proof -
  have "keeps (sdat_init sc) (exec_all e ops (sdat_init sc))" by (rule exec_all_keeps)
  then show ?thesis unfolding keeps_def using registry_inv_init by blast
qed

lemma steps_item_int_hit: "steps s i = Some r \<Longrightarrow> steps_item (KInt i) s = (Inr r, s)"
  by (simp add: steps_item_def dict_lookup_def)

lemma steps_item_int_new:
  "steps s i = None \<Longrightarrow> 0 \<le> i \<Longrightarrow>
     steps_item (KInt i) s =
       (Inr (length (heap s)),
        s\<lparr> heap := heap s @ [Step_init i], steps := (steps s)(i \<mapsto> length (heap s)) \<rparr>)"
  by (simp add: steps_item_def dict_lookup_def steps_missing_def alloc_def)

lemma steps_item_int_neg:
  "steps s i = None \<Longrightarrow> i < 0 \<Longrightarrow>
     steps_item (KInt i) s = (Inl (ValueError ''Time step should be positive''), s)"
  by (simp add: steps_item_def dict_lookup_def steps_missing_def)

lemma steps_item_nonneg:
  assumes "0 \<le> i"
  shows "\<exists>r s1. steps_item (KInt i) s = (Inr r, s1) \<and> steps s1 i = Some r \<and>
            (steps s i = None \<longrightarrow> r = length (heap s) \<and> heap s1 = heap s @ [Step_init i]) \<and>
            (steps s i \<noteq> None \<longrightarrow> s1 = s)"
proof (cases "steps s i")
  case None
  then show ?thesis using steps_item_int_new[OF None assms] by simp
next
  case (Some r)
  then show ?thesis using steps_item_int_hit[OF Some] by simp
qed

lemma extends_steps: "keeps s s' \<Longrightarrow> steps s k = Some r \<Longrightarrow> steps s' k = Some r"
  by (simp add: keeps_def extends_def)

lemma registry_unique:
  assumes "registry_inv s" "r1 < length (heap s)" "r2 < length (heap s)"
    "\<not> is_empty (heap s ! r1)" "\<not> is_empty (heap s ! r2)"
    "istep_attr (heap s ! r1) = istep_attr (heap s ! r2)"
  shows "r1 = r2"
proof -
  from assms(1,2,4) obtain k1 where k1: "istep_attr (heap s ! r1) = Some k1" "steps s k1 = Some r1"
    unfolding registry_inv_def by blast
  from assms(1,3,5) obtain k2 where k2: "istep_attr (heap s ! r2) = Some k2" "steps s k2 = Some r2"
    unfolding registry_inv_def by blast
  from k1 k2 assms(6) show ?thesis by simp
qed

lemma new_entry_fresh:
  assumes "registry_inv s" "keeps s s'" "steps s j = None" "steps s' j = Some r"
  shows "length (heap s) \<le> r \<and> r < length (heap s') \<and> \<not> is_empty (heap s' ! r) \<and>
         istep_attr (heap s' ! r) = Some j"
proof -
  have inv': "registry_inv s'" using assms(1,2) by (simp add: keeps_def)
  have obj: "r < length (heap s') \<and> \<not> is_empty (heap s' ! r) \<and> istep_attr (heap s' ! r) = Some j"
    using inv' assms(4) unfolding registry_inv_def by blast
  have "length (heap s) \<le> r"
  proof (rule ccontr)
    assume "\<not> length (heap s) \<le> r"
    then have lt: "r < length (heap s)" by simp
    have same: "is_empty (heap s' ! r) = is_empty (heap s ! r) \<and>
                istep_attr (heap s' ! r) = istep_attr (heap s ! r)"
      using assms(2) lt unfolding keeps_def extends_def by blast
    then have ne: "\<not> is_empty (heap s ! r)" and at: "istep_attr (heap s ! r) = Some j"
      using obj by simp_all
    from assms(1) lt ne obtain k where "istep_attr (heap s ! r) = Some k" "steps s k = Some r"
      unfolding registry_inv_def by blast
    with at assms(3) show False by simp
  qed
  with obj show ?thesis by simp
qed

text \<open>
  Claim C4, as amended. On the dataset \<open>s\<close> that any sequence of the operations the
  module defines leaves, and for every integer \<open>i \<ge> 0\<close>: \<open>dataset.steps[i]\<close>
  returns a reference \<open>r\<close>; evaluating it again returns the same reference and
  changes nothing, also after any further such operations; \<open>r\<close> is a \<open>_Step\<close> with
  \<open>istep = i\<close>; and no two \<open>_Step\<close> objects of the dataset have the same
  \<open>istep\<close>.
\<close>

theorem steps_identity_stable:
  assumes "s = exec_all e ops (sdat_init sc)" and "0 \<le> i"
  shows "\<exists>r s1. steps_getitem (KInt i) s = (Inr (RStep r), s1) \<and>
           steps_getitem (KInt i) s1 = (Inr (RStep r), s1) \<and>
           (\<forall>ops'. steps_getitem (KInt i) (exec_all e ops' s1) =
                     (Inr (RStep r), exec_all e ops' s1)) \<and>
           r < length (heap s1) \<and> \<not> is_empty (heap s1 ! r) \<and>
           istep_attr (heap s1 ! r) = Some i \<and>
           (\<forall>r1 r2. r1 < length (heap s1) \<and> r2 < length (heap s1) \<and>
                    \<not> is_empty (heap s1 ! r1) \<and> \<not> is_empty (heap s1 ! r2) \<and>
                    istep_attr (heap s1 ! r1) = istep_attr (heap s1 ! r2) \<longrightarrow> r1 = r2)"
proof -
  from steps_item_nonneg[OF assms(2), of s] obtain r s1 where
    it: "steps_item (KInt i) s = (Inr r, s1)" and st: "steps s1 i = Some r" by blast
  have inv: "registry_inv s" unfolding assms(1) by (rule registry_inv_exec_all)
  have "keeps s s1" using steps_item_keeps[of s "KInt i"] it by simp
  then have inv1: "registry_inv s1" using inv by (simp add: keeps_def)
  have g1: "steps_getitem (KInt i) s = (Inr (RStep r), s1)"
    using it by (simp add: steps_getitem_def)
  have later: "steps_getitem (KInt i) (exec_all e ops' s1) = (Inr (RStep r), exec_all e ops' s1)" for ops'
  proof -
    have "steps (exec_all e ops' s1) i = Some r"
      using extends_steps[OF exec_all_keeps st] .
    from steps_item_int_hit[OF this] show ?thesis by (simp add: steps_getitem_def)
  qed
  have g2: "steps_getitem (KInt i) s1 = (Inr (RStep r), s1)"
    using steps_item_int_hit[OF st] by (simp add: steps_getitem_def)
  have obj: "r < length (heap s1) \<and> \<not> is_empty (heap s1 ! r) \<and> istep_attr (heap s1 ! r) = Some i"
    using inv1 st unfolding registry_inv_def by blast
  have uniq: "\<forall>r1 r2. r1 < length (heap s1) \<and> r2 < length (heap s1) \<and>
                    \<not> is_empty (heap s1 ! r1) \<and> \<not> is_empty (heap s1 ! r2) \<and>
                    istep_attr (heap s1 ! r1) = istep_attr (heap s1 ! r2) \<longrightarrow> r1 = r2"
    using registry_unique[OF inv1] by blast
  show ?thesis using g1 g2 later obj uniq by blast
qed

theorem steps_identity_stable_witness:
  "\<exists>r s1. steps_getitem (KInt 3) (exec_all no_files [StepsGetitem (KInt 5)] (sdat_init [])) =
             (Inr (RStep r), s1) \<and>
          steps_getitem (KInt 3) s1 = (Inr (RStep r), s1) \<and>
          (\<forall>ops'. steps_getitem (KInt 3) (exec_all no_files ops' s1) =
                    (Inr (RStep r), exec_all no_files ops' s1)) \<and>
          r < length (heap s1) \<and> \<not> is_empty (heap s1 ! r) \<and>
          istep_attr (heap s1 ! r) = Some 3 \<and>
          (\<forall>r1 r2. r1 < length (heap s1) \<and> r2 < length (heap s1) \<and>
                   \<not> is_empty (heap s1 ! r1) \<and> \<not> is_empty (heap s1 ! r2) \<and>
                   istep_attr (heap s1 ! r1) = istep_attr (heap s1 ! r2) \<longrightarrow> r1 = r2)"
  using steps_identity_stable[OF refl, of 3 no_files "[StepsGetitem (KInt 5)]" "[]"] by simp

text \<open>
  Claim C4 as stated fails: the registry is a dictionary, and \<open>pop\<close> is the one it
  inherits. On a new dataset \<open>dataset.steps[3]\<close> creates the step 3 (object 0);
  \<open>dataset.steps.pop(3)\<close> returns it and removes the entry; \<open>dataset.steps[3]\<close>
  then creates a second step 3 (object 1), while the caller still holds the first.
\<close>

theorem steps_pop_second_step_counterexample:
  "fst (steps_getitem (KInt 3) (sdat_init [] :: nat sdat)) = Inr (RStep 0) \<and>
   fst (dict_pop StepsReg (KInt 3) (snd (steps_getitem (KInt 3) (sdat_init [] :: nat sdat)))) =
     Inr 0 \<and>
   fst (steps_getitem (KInt 3)
          (snd (dict_pop StepsReg (KInt 3)
                  (snd (steps_getitem (KInt 3) (sdat_init [] :: nat sdat)))))) =
     Inr (RStep 1) \<and>
   heap (snd (steps_getitem (KInt 3)
          (snd (dict_pop StepsReg (KInt 3)
                  (snd (steps_getitem (KInt 3) (sdat_init [] :: nat sdat))))))) =
     [Step_init 3, Step_init 3]"
  by (simp add: steps_getitem_def steps_item_def dict_lookup_def steps_missing_def alloc_def
        sdat_init_def dict_pop_def registry_dict_def registry_store_def)

text \<open>
  Claim C10, as amended. \<open>dataset.steps[k] = v\<close> and \<open>dataset.snaps[k] = v\<close> leave
  the dataset as it is. Over any sequence of the operations the module defines, an
  entry of the step registry stays what it was and the dictionary of the snapshot
  registry stays as it was; and on a dataset such operations have made from a new
  one, an entry that appears refers to a \<open>_Step\<close> of that number created since, so
  no entry is the caller's.
\<close>

theorem registry_entries_kept:
  "steps_setitem k v s = s \<and> snaps_setitem k v s = s \<and>
   exec e (StepsSetitem k v) s = s \<and> exec e (SnapsSetitem k v) s = s \<and>
   (steps s i = Some r \<longrightarrow> steps (exec_all e ops s) i = Some r) \<and>
   snaps (exec_all e ops s) = snaps s \<and>
   (s = exec_all e ops0 (sdat_init sc) \<and> steps s j = None \<and>
    steps (exec_all e ops s) j = Some r' \<longrightarrow>
      length (heap s) \<le> r' \<and> r' < length (heap (exec_all e ops s)) \<and>
      \<not> is_empty (heap (exec_all e ops s) ! r') \<and>
      istep_attr (heap (exec_all e ops s) ! r') = Some j)"
proof -
  have k: "keeps s (exec_all e ops s)" by (rule exec_all_keeps)
  then have kept: "steps s i = Some r \<longrightarrow> steps (exec_all e ops s) i = Some r"
    using extends_steps by blast
  have sn: "snaps (exec_all e ops s) = snaps s"
    using k by (simp add: keeps_def extends_def)
  have fresh: "length (heap s) \<le> r' \<and> r' < length (heap (exec_all e ops s)) \<and>
      \<not> is_empty (heap (exec_all e ops s) ! r') \<and>
      istep_attr (heap (exec_all e ops s) ! r') = Some j"
    if "s = exec_all e ops0 (sdat_init sc) \<and> steps s j = None \<and>
        steps (exec_all e ops s) j = Some r'"
  proof -
    have "registry_inv s" using that registry_inv_exec_all[of e ops0 sc] by simp
    from new_entry_fresh[OF this k] that show ?thesis by blast
  qed
  have set: "steps_setitem k v s = s" "snaps_setitem k v s = s"
    "exec e (StepsSetitem k v) s = s" "exec e (SnapsSetitem k v) s = s"
    by (simp_all add: steps_setitem_def snaps_setitem_def exec_def)
  show ?thesis
    using set kept sn fresh by blast
qed

theorem registry_entries_kept_witness:
  "steps (exec_all no_files [StepsGetitem (KInt 3)] (sdat_init []) :: nat sdat) 3 = Some 0 \<and>
   steps (exec_all no_files [StepsSetitem (KInt 3) 7, StepsGetitem (KInt 4)]
            (exec_all no_files [StepsGetitem (KInt 3)] (sdat_init []))) 3 = Some 0 \<and>
   steps (exec_all no_files [StepsGetitem (KInt 3)] (sdat_init []) :: nat sdat) 4 = None \<and>
   steps (exec_all no_files [StepsSetitem (KInt 3) 7, StepsGetitem (KInt 4)]
            (exec_all no_files [StepsGetitem (KInt 3)] (sdat_init []))) 4 = Some 1 \<and>
   istep_attr (heap (exec_all no_files [StepsSetitem (KInt 3) 7, StepsGetitem (KInt 4)]
            (exec_all no_files [StepsGetitem (KInt 3)] (sdat_init []))) ! 1) = Some 4"
proof -
  have a: "steps (exec_all no_files [StepsGetitem (KInt 3)] (sdat_init []) :: nat sdat) 3 = Some 0"
    "steps (exec_all no_files [StepsGetitem (KInt 3)] (sdat_init []) :: nat sdat) 4 = None"
    by (simp_all add: exec_all_def exec_def steps_getitem_def steps_item_def dict_lookup_def
        steps_missing_def alloc_def sdat_init_def)
  have b: "steps (exec_all no_files [StepsSetitem (KInt 3) 7, StepsGetitem (KInt 4)]
            (exec_all no_files [StepsGetitem (KInt 3)] (sdat_init []))) 4 = Some 1"
    by (simp add: exec_all_def exec_def steps_getitem_def steps_item_def dict_lookup_def
        steps_missing_def alloc_def sdat_init_def steps_setitem_def)
  show ?thesis
    using a b registry_entries_kept[of "KInt 3" 7
            "exec_all no_files [StepsGetitem (KInt 3)] (sdat_init [])"
            no_files 3 0 "[StepsSetitem (KInt 3) 7, StepsGetitem (KInt 4)]"
            "[StepsGetitem (KInt 3)]" "[]" 4 1]
    by simp
qed

text \<open>
  Claim C10 as stated fails: what the registries inherit from \<open>dict\<close> does not go
  through \<open>__setitem__\<close>. After \<open>dataset.steps[3]\<close> (object 0) and
  \<open>dataset.steps[4]\<close> (object 1) on a new dataset,
  \<open>dataset.steps.update({3: dataset.steps[4]})\<close> replaces the entry of 3, so
  \<open>dataset.steps[3]\<close> is the step 4; \<open>del dataset.steps[3]\<close> removes the entry;
  and \<open>dataset.snaps.update({0: dataset.steps[3]})\<close> stores an entry in the
  dictionary of the snapshot registry.
\<close>

theorem registry_update_replaces_counterexample:
  "steps (exec_all no_files [StepsGetitem (KInt 3), StepsGetitem (KInt 4)]
            (sdat_init []) :: nat sdat) 3 = Some 0 \<and>
   steps_getitem (KInt 3)
     (dict_update StepsReg [(3, 1)]
        (exec_all no_files [StepsGetitem (KInt 3), StepsGetitem (KInt 4)] (sdat_init []))) =
     (Inr (RStep 1),
      dict_update StepsReg [(3, 1)]
        (exec_all no_files [StepsGetitem (KInt 3), StepsGetitem (KInt 4)] (sdat_init []))) \<and>
   istep_attr (heap (exec_all no_files [StepsGetitem (KInt 3), StepsGetitem (KInt 4)]
                       (sdat_init []) :: nat sdat) ! 1) = Some 4 \<and>
   fst (dict_delitem StepsReg (KInt 3)
          (exec_all no_files [StepsGetitem (KInt 3), StepsGetitem (KInt 4)]
             (sdat_init []) :: nat sdat)) = Inr () \<and>
   steps (snd (dict_delitem StepsReg (KInt 3)
          (exec_all no_files [StepsGetitem (KInt 3), StepsGetitem (KInt 4)]
             (sdat_init []) :: nat sdat))) 3 = None \<and>
   snaps (dict_update SnapsReg [(0, 0)]
          (exec_all no_files [StepsGetitem (KInt 3), StepsGetitem (KInt 4)]
             (sdat_init []) :: nat sdat)) 0 = Some 0"
proof -
  have s: "exec_all no_files [StepsGetitem (KInt 3), StepsGetitem (KInt 4)]
             (sdat_init []) =
           ((sdat_init []) :: nat sdat)\<lparr> heap := [Step_init 3, Step_init 4],
               steps := [3 \<mapsto> 0, 4 \<mapsto> 1] \<rparr>"
    by (simp add: exec_all_def exec_def steps_getitem_def steps_item_def dict_lookup_def
        steps_missing_def alloc_def sdat_init_def)
  show ?thesis
    unfolding s
    by (simp add: steps_getitem_def steps_item_def dict_lookup_def dict_update_def
        dict_delitem_def dict_pop_def registry_dict_def registry_store_def sdat_init_def
        Step_init_def)
qed

lemma py_int_str_error: "int_of_str str = Inl err \<Longrightarrow> \<exists>m. err = ValueError m"
  by (auto simp: int_of_str_def Let_def split: if_splits option.splits prod.splits list.splits)

lemma steps_missing_present:
  assumes "registry_inv s" "steps s i = Some r"
  shows "steps_missing (KInt i) s = (Inr r, s)"
proof -
  have "0 \<le> i" using assms unfolding registry_inv_def by blast
  then show ?thesis using assms(2) by (simp add: steps_missing_def)
qed

lemma trunc_float_key:
  assumes "registry_inv s"
  shows "steps_getitem (KFloat q) s = steps_getitem (KInt (if 0 \<le> q then \<lfloor>q\<rfloor> else \<lceil>q\<rceil>)) s"
proof -
  let ?t = "if 0 \<le> q then \<lfloor>q\<rfloor> else \<lceil>q\<rceil>"
  have integral: "?t = \<lfloor>q\<rfloor>" if "q = of_int \<lfloor>q\<rfloor>"
    using that by (metis ceiling_of_int)
  have m: "steps_missing (KFloat q) s = steps_missing (KInt ?t) s"
    by (simp add: steps_missing_def)
  have "steps_item (KFloat q) s = steps_item (KInt ?t) s"
  proof (cases "steps s ?t")
    case None
    then show ?thesis using m integral
      by (auto simp: steps_item_def dict_lookup_def)
  next
    case (Some r)
    have "steps_missing (KFloat q) s = (Inr r, s)"
      using m steps_missing_present[OF assms Some] by simp
    then show ?thesis using Some integral
      by (auto simp: steps_item_def dict_lookup_def)
  qed
  then show ?thesis by (simp add: steps_getitem_def)
qed

lemma steps_item_coerced:
  assumes "registry_inv s" "py_int k = Inr n" "k \<noteq> KNone"
    "key_as_int k = None \<or> key_as_int k = Some n"
  shows "steps_item k s = steps_item (KInt n) s"
proof -
  have m: "steps_missing k s = steps_missing (KInt n) s"
    using assms(2,3) by (simp add: steps_missing_def)
  show ?thesis
  proof (cases "steps s n")
    case None
    then show ?thesis using m assms(4) by (auto simp: steps_item_def dict_lookup_def)
  next
    case (Some r)
    have "steps_missing k s = (Inr r, s)"
      using m steps_missing_present[OF assms(1) Some] by simp
    then show ?thesis using Some assms(4) by (auto simp: steps_item_def dict_lookup_def)
  qed
qed

text \<open>
  Claim C8, as amended. On the dataset any sequence of the operations the module
  defines leaves:
  \<open>dataset.steps[i]\<close> with an integer \<open>i < 0\<close> raises ValueError and changes
  nothing; with \<open>i \<ge> 0\<close> it returns the \<open>_Step\<close> of \<open>i\<close>, created and stored on
  the first request and unchanged afterwards; a string that \<open>int\<close> rejects and the
  float NaN raise ValueError and change nothing; a string that \<open>int\<close> accepts is the
  integer it denotes; and a finite float is the integer \<open>int\<close> truncates it to.
\<close>

theorem steps_invalid_step_number:
  assumes "s = exec_all e ops (sdat_init sc)"
  shows "(i < 0 \<longrightarrow>
           steps_getitem (KInt i) s = (Inl (ValueError ''Time step should be positive''), s)) \<and>
         (0 \<le> i \<longrightarrow>
           (\<exists>r s1. steps_getitem (KInt i) s = (Inr (RStep r), s1) \<and> steps s1 i = Some r \<and>
                   \<not> is_empty (heap s1 ! r) \<and> istep_attr (heap s1 ! r) = Some i \<and>
                   (steps s i = None \<longrightarrow> r = length (heap s) \<and> heap s1 = heap s @ [Step_init i]) \<and>
                   (steps s i \<noteq> None \<longrightarrow> s1 = s))) \<and>
         (int_of_str str = Inl err \<longrightarrow>
           steps_getitem (KStr str) s =
             (Inl (ValueError ''Time step should be an integer value''), s)) \<and>
         (int_of_str str = Inr n \<longrightarrow>
           steps_getitem (KStr str) s = steps_getitem (KInt n) s) \<and>
         steps_getitem KNaN s = (Inl (ValueError ''Time step should be an integer value''), s) \<and>
         steps_getitem (KFloat q) s =
           steps_getitem (KInt (if 0 \<le> q then \<lfloor>q\<rfloor> else \<lceil>q\<rceil>)) s"
proof -
  have inv: "registry_inv s" unfolding assms by (rule registry_inv_exec_all)
  have neg: "steps_getitem (KInt i) s = (Inl (ValueError ''Time step should be positive''), s)"
    if "i < 0"
  proof -
    have "steps s i = None"
    proof (cases "steps s i")
      case (Some r)
      then have "0 \<le> i" using inv unfolding registry_inv_def by blast
      with that show ?thesis by simp
    qed simp
    from steps_item_int_neg[OF this that] show ?thesis by (simp add: steps_getitem_def)
  qed
  have pos: "\<exists>r s1. steps_getitem (KInt i) s = (Inr (RStep r), s1) \<and> steps s1 i = Some r \<and>
                   \<not> is_empty (heap s1 ! r) \<and> istep_attr (heap s1 ! r) = Some i \<and>
                   (steps s i = None \<longrightarrow> r = length (heap s) \<and> heap s1 = heap s @ [Step_init i]) \<and>
                   (steps s i \<noteq> None \<longrightarrow> s1 = s)"
    if "0 \<le> i"
  proof -
    have "\<exists>r s1. steps_item (KInt i) s = (Inr r, s1) \<and> steps s1 i = Some r \<and>
            (steps s i = None \<longrightarrow> r = length (heap s) \<and> heap s1 = heap s @ [Step_init i]) \<and>
            (steps s i \<noteq> None \<longrightarrow> s1 = s)"
      by (rule steps_item_nonneg[OF that])
    then obtain r s1 where
      it: "steps_item (KInt i) s = (Inr r, s1)" and st: "steps s1 i = Some r"
      and new: "steps s i = None \<longrightarrow> r = length (heap s) \<and> heap s1 = heap s @ [Step_init i]"
      and old: "steps s i \<noteq> None \<longrightarrow> s1 = s" by (elim exE conjE)
    have "keeps s s1" using steps_item_keeps[of s "KInt i"] it by simp
    then have inv1: "registry_inv s1" using inv by (simp add: keeps_def)
    have "\<not> is_empty (heap s1 ! r) \<and> istep_attr (heap s1 ! r) = Some i"
      using inv1 st unfolding registry_inv_def by blast
    then show ?thesis using it st new old by (simp add: steps_getitem_def)
  qed
  have strerr: "steps_getitem (KStr str) s =
             (Inl (ValueError ''Time step should be an integer value''), s)"
    if "int_of_str str = Inl err"
  proof -
    from py_int_str_error[OF that] obtain m where "err = ValueError m" by blast
    then show ?thesis using that
      by (simp add: steps_getitem_def steps_item_def dict_lookup_def steps_missing_def)
  qed
  have strok: "steps_getitem (KStr str) s = steps_getitem (KInt n) s" if "int_of_str str = Inr n"
  proof -
    have "steps_item (KStr str) s = steps_item (KInt n) s"
      by (rule steps_item_coerced[OF inv]) (use that in simp_all)
    then show ?thesis by (simp add: steps_getitem_def)
  qed
  have nan: "steps_getitem KNaN s = (Inl (ValueError ''Time step should be an integer value''), s)"
    by (simp add: steps_getitem_def steps_item_def dict_lookup_def steps_missing_def)
  show ?thesis using neg pos strerr strok nan trunc_float_key[OF inv] by blast
qed

theorem steps_invalid_step_number_witness:
  "steps_getitem (KInt (- 1)) (exec_all no_files [] (sdat_init [])) =
     (Inl (ValueError ''Time step should be positive''), exec_all no_files [] (sdat_init [])) \<and>
   (\<exists>r s1. steps_getitem (KInt 4) (exec_all no_files [] (sdat_init [])) = (Inr (RStep r), s1) \<and>
           steps s1 4 = Some r \<and> r = 0 \<and> heap s1 = [Step_init 4]) \<and>
   steps_getitem (KStr ''abc'') (exec_all no_files [] (sdat_init [])) =
     (Inl (ValueError ''Time step should be an integer value''), exec_all no_files [] (sdat_init [])) \<and>
   steps_getitem (KStr [CHR 0x1F, CHR ''7'']) (exec_all no_files [] (sdat_init [])) =
     (Inl (ValueError ''Time step should be an integer value''), exec_all no_files [] (sdat_init [])) \<and>
   steps_getitem (KStr [CHR 0xA0, CHR ''7'', CHR 0x0A]) (exec_all no_files [] (sdat_init [])) =
     steps_getitem (KInt 7) (exec_all no_files [] (sdat_init []))"
proof -
  have a: "int_of_str ''abc'' = Inl (ValueError ''invalid literal for int() with base 10'')"
    by (simp add: int_of_str_def to_ascii_def to_ascii_char_def unicode_isspace_def
        py_strip_def py_isspace_def digit_of_def Let_def)
  have a2: "int_of_str [CHR 0x1F, CHR ''7''] =
      Inl (ValueError ''invalid literal for int() with base 10'')"
    by (simp add: int_of_str_def to_ascii_def to_ascii_char_def unicode_isspace_def
        py_strip_def py_isspace_def digit_of_def Let_def)
  have a3: "int_of_str [CHR 0xA0, CHR ''7'', CHR 0x0A] = Inr 7"
    by (simp add: int_of_str_def to_ascii_def to_ascii_char_def unicode_isspace_def
        py_strip_def py_isspace_def digit_of_def Let_def)
  have b: "steps (exec_all no_files [] (sdat_init []) :: nat sdat) 4 = None"
    by (simp add: exec_all_def sdat_init_def)
  have c: "heap (exec_all no_files [] (sdat_init []) :: nat sdat) = []"
    by (simp add: exec_all_def sdat_init_def)
  show ?thesis
    using steps_invalid_step_number[OF refl, of "- 1" no_files "[]" "[]" "''abc''" "ValueError []" 0 0]
      steps_invalid_step_number[OF refl, of 4 no_files "[]" "[]" "''abc''"
        "ValueError ''invalid literal for int() with base 10''" 0 0]
      steps_invalid_step_number[OF refl, of 4 no_files "[]" "[]" "[CHR 0x1F, CHR ''7'']"
        "ValueError ''invalid literal for int() with base 10''" 0 0]
      steps_invalid_step_number[OF refl, of 4 no_files "[]" "[]" "[CHR 0xA0, CHR ''7'', CHR 0x0A]"
        "ValueError []" 7 0]
      a a2 a3 b c
    by auto
qed

lemma floor_five_halves: "\<lfloor>5 / 2 :: rat\<rfloor> = 2"
  by code_simp

text \<open>
  Claim C8 as stated fails: the key \<open>2.5\<close> is not integral, and
  \<open>dataset.steps[2.5]\<close> on a new dataset raises nothing: it creates the step 2,
  stores it under 2 and returns it.
\<close>

theorem steps_float_key_counterexample:
  "fst (steps_getitem (KFloat (5 / 2)) (sdat_init [] :: nat sdat)) = Inr (RStep 0) \<and>
   heap (snd (steps_getitem (KFloat (5 / 2)) (sdat_init [] :: nat sdat))) = [Step_init 2] \<and>
   steps (snd (steps_getitem (KFloat (5 / 2)) (sdat_init [] :: nat sdat))) 2 = Some 0"
  by (simp add: steps_getitem_def steps_item_def dict_lookup_def steps_missing_def alloc_def
        sdat_init_def floor_five_halves)







subsection \<open>Missing snapshots\<close>

lemma steps_item_None:
  "steps_item KNone s = (Inr (length (heap s)), s\<lparr> heap := heap s @ [EmptyStep_init] \<rparr>)"
  by (simp add: steps_item_def dict_lookup_def steps_missing_def alloc_def)

lemma scan_loop_all_missing:
  assumes "\<forall>par\<in>set pars. probe e par n = None"
    and "insert_idx (isteps s) n None = Inr ix"
  shows "scan_loop e n pars cur s =
           steps_item (if pars = [] then cur else KNone)
             (s\<lparr> calls := calls s @ map (\<lambda>par. Probe par n) pars, isteps := ix \<rparr>)"
  using assms
proof (induction pars arbitrary: cur s)
  case Nil
  then show ?case by simp
next
  case (Cons par pars)
  have p: "probe e par n = None" using Cons.prems(1) by simp
  have rest: "\<forall>par\<in>set pars. probe e par n = None" using Cons.prems(1) by simp
  have ins: "insert_idx (isteps (log_call (Probe par n) s)) n None = Inr ix"
    using Cons.prems(2) by (simp add: log_call_def)
  have "scan_loop e n (par # pars) cur s = scan_loop e n pars KNone (log_call (Probe par n) s)"
    using p by simp
  also have "\<dots> = steps_item (if pars = [] then KNone else KNone)
             ((log_call (Probe par n) s)\<lparr> calls := calls (log_call (Probe par n) s) @ map (\<lambda>par. Probe par n) pars, isteps := ix \<rparr>)"
    by (rule Cons.IH[OF rest ins])
  finally show ?case by (simp add: log_call_def)
qed

lemma get_istep_undetermined_stored:
  assumes "wf_index ix" "in_range n" "get_istep ix n = Inr UNDETERMINED"
  shows "stored ix n = None"
proof (cases "stored ix n")
  case (Some v)
  then have "get_istep ix n = Inr (lazy_of v)" using get_istep_stored[OF assms(1,2)] by simp
  with assms(3) show ?thesis by (cases v) simp_all
qed simp

lemma scan_exec_all: "scan (exec_all e ops s) = scan s"
  using exec_all_keeps[of s e ops] by (simp add: keeps_def extends_def)

text \<open>
  Claim C1, as amended. On the dataset any sequence of operations leaves, with at least
  one record kind to scan, for a snapshot number \<open>-100000 \<le> isnap < 100000\<close> the
  index does not know yet and for which no record kind yields a step number:
  \<open>dataset.snaps[isnap]\<close> returns a new placeholder, every attribute of which is
  \<open>None\<close>; no step is registered; the index then holds \<open>isnap\<close> as missing; each
  record kind was probed once; and the same request again returns a placeholder
  without a further call of the parsing service and without a change of the index.
\<close>

theorem snaps_missing_file_placeholder:
  assumes "s = exec_all e ops (sdat_init sc)"
    and "sc \<noteq> []" and "\<forall>par\<in>set sc. probe e par isnap = None"
    and "- 100000 \<le> isnap" and "isnap < 100000"
    and "get_istep (isteps s) isnap = Inr UNDETERMINED"
  shows "\<exists>r s1. snaps_getitem e (KInt isnap) s = (Inr (RStep r), s1) \<and>
           r = length (heap s) \<and> heap s1 = heap s @ [EmptyStep_init] \<and>
           is_empty (heap s1 ! r) \<and>
           (\<forall>name. EmptyStep_getattribute (heap s1 ! r) name = PNone) \<and>
           get_istep (isteps s1) isnap = Inr PyNone \<and>
           calls s1 = calls s @ map (\<lambda>par. Probe par isnap) sc \<and>
           steps s1 = steps s \<and>
           (\<exists>r2 s2. snaps_getitem e (KInt isnap) s1 = (Inr (RStep r2), s2) \<and>
                    is_empty (heap s2 ! r2) \<and>
                    (\<forall>name. EmptyStep_getattribute (heap s2 ! r2) name = PNone) \<and>
                    calls s2 = calls s1 \<and> isteps s2 = isteps s1)"
proof -
  have inv: "registry_inv s" unfolding assms(1) by (rule registry_inv_exec_all)
  then have wf: "wf_index (isteps s)" by (simp add: registry_inv_def)
  have r: "in_range isnap" using assms(4,5) by (simp add: in_range_def)
  have sc: "scan s = sc" unfolding assms(1) by (simp add: scan_exec_all sdat_init_def)
  have none: "stored (isteps s) isnap = None"
    by (rule get_istep_undetermined_stored[OF wf r assms(6)])
  from insert_idx_absent[OF wf r none, of None] obtain ix where
    ins: "insert_idx (isteps s) isnap None = Inr ix" and wf': "wf_index ix"
    and st: "stored ix isnap = Some None" by auto
  define s1 where "s1 = s\<lparr> calls := calls s @ map (\<lambda>par. Probe par isnap) sc, isteps := ix,
                           heap := heap s @ [EmptyStep_init] \<rparr>"
  have "scan_loop e isnap sc KObj s =
          steps_item KNone (s\<lparr> calls := calls s @ map (\<lambda>par. Probe par isnap) sc, isteps := ix \<rparr>)"
    using scan_loop_all_missing[OF assms(3) ins, of KObj] assms(2) by simp
  then have sl: "scan_loop e isnap sc KObj s = (Inr (length (heap s)), s1)"
    by (simp add: steps_item_None s1_def)
  have first: "snaps_getitem e (KInt isnap) s = (Inr (RStep (length (heap s))), s1)"
    using assms(6) sl sc by (simp add: snaps_getitem_def snaps_missing_def)
  have g1: "get_istep (isteps s1) isnap = Inr PyNone"
    using get_istep_stored[OF wf' r] st by (simp add: s1_def)
  have second: "snaps_getitem e (KInt isnap) s1 =
                  (Inr (RStep (length (heap s1))), s1\<lparr> heap := heap s1 @ [EmptyStep_init] \<rparr>)"
    using g1 by (simp add: snaps_getitem_def snaps_missing_def steps_item_None)
  have e1: "is_empty (heap s1 ! length (heap s))"
    by (simp add: s1_def EmptyStep_init_def)
  have e2: "is_empty (heap (s1\<lparr> heap := heap s1 @ [EmptyStep_init] \<rparr>) ! length (heap s1))"
    by (simp add: EmptyStep_init_def)
  have again: "\<exists>r2 s2. snaps_getitem e (KInt isnap) s1 = (Inr (RStep r2), s2) \<and>
                    is_empty (heap s2 ! r2) \<and>
                    (\<forall>name. EmptyStep_getattribute (heap s2 ! r2) name = PNone) \<and>
                    calls s2 = calls s1 \<and> isteps s2 = isteps s1"
    using second e2 by (simp add: EmptyStep_getattribute_def)
  have "snaps_getitem e (KInt isnap) s = (Inr (RStep (length (heap s))), s1) \<and>
           length (heap s) = length (heap s) \<and> heap s1 = heap s @ [EmptyStep_init] \<and>
           is_empty (heap s1 ! length (heap s)) \<and>
           (\<forall>name. EmptyStep_getattribute (heap s1 ! length (heap s)) name = PNone) \<and>
           get_istep (isteps s1) isnap = Inr PyNone \<and>
           calls s1 = calls s @ map (\<lambda>par. Probe par isnap) sc \<and>
           steps s1 = steps s \<and>
           (\<exists>r2 s2. snaps_getitem e (KInt isnap) s1 = (Inr (RStep r2), s2) \<and>
                    is_empty (heap s2 ! r2) \<and>
                    (\<forall>name. EmptyStep_getattribute (heap s2 ! r2) name = PNone) \<and>
                    calls s2 = calls s1 \<and> isteps s2 = isteps s1)"
    using first g1 e1 again by (simp add: s1_def EmptyStep_getattribute_def)
  then show ?thesis by blast
qed

lemma get_istep_init: "in_range n \<Longrightarrow> get_istep Indexes_init n = Inr UNDETERMINED"
  using get_istep_stored[OF wf_index_init, of n] stored_init[of n] by simp

theorem snaps_missing_file_placeholder_witness:
  "\<exists>r s1. snaps_getitem no_files (KInt 5) (exec_all no_files [] (sdat_init [''t'', ''vp''])) =
             (Inr (RStep r), s1) \<and>
          r = 0 \<and> heap s1 = [EmptyStep_init] \<and> is_empty (heap s1 ! r) \<and>
          (\<forall>name. EmptyStep_getattribute (heap s1 ! r) name = PNone) \<and>
          get_istep (isteps s1) 5 = Inr PyNone \<and>
          calls s1 = [Probe ''t'' 5, Probe ''vp'' 5] \<and>
          steps s1 = steps (exec_all no_files [] (sdat_init [''t'', ''vp''])) \<and>
          (\<exists>r2 s2. snaps_getitem no_files (KInt 5) s1 = (Inr (RStep r2), s2) \<and>
                   is_empty (heap s2 ! r2) \<and>
                   (\<forall>name. EmptyStep_getattribute (heap s2 ! r2) name = PNone) \<and>
                   calls s2 = calls s1 \<and> isteps s2 = isteps s1)"
proof -
  have a: "\<forall>par\<in>set [''t'', ''vp'']. probe no_files par 5 = None"
    by (simp add: no_files_def)
  have b: "get_istep (isteps (exec_all no_files [] (sdat_init [''t'', ''vp'']) :: nat sdat)) 5
             = Inr UNDETERMINED"
    by (simp add: exec_all_def sdat_init_def get_istep_init in_range_def)
  have c: "heap (exec_all no_files [] (sdat_init [''t'', ''vp'']) :: nat sdat) = []"
          "calls (exec_all no_files [] (sdat_init [''t'', ''vp'']) :: nat sdat) = []"
    by (simp_all add: exec_all_def sdat_init_def)
  show ?thesis
    using snaps_missing_file_placeholder[OF refl _ a _ _ b] c by simp
qed

lemma insert_5_None:
  "insert_idx Indexes_init 5 None =
     Inr (Indexes_init\<lparr> isnap_lists := (replicate 400 [])[0 := [5]],
                         istep_lists := (replicate 400 [])[0 := [None]] \<rparr>)"
  by (simp add: insert_idx_def isnap_idx_def Indexes_init_def list_getitem_def norm_index_def
        bisect_left_def bisect_loop.simps bucket_update_def list_insert_def)

text \<open>
  Claim C1 as stated fails. With one record kind to scan and no file, \<open>dataset.snaps[5]\<close>
  returns a placeholder whose attribute \<open>fields\<close> is \<open>None\<close>, so that
  \<open>.fields['t']\<close> raises TypeError; and \<open>dataset.snaps[999999]\<close> raises IndexError.
\<close>

theorem placeholder_fields_counterexample:
  "fst (snaps_getitem no_files (KInt 5) (sdat_init [''t''])) = Inr (RStep 0) \<and>
   heap (snd (snaps_getitem no_files (KInt 5) (sdat_init [''t'']))) = [EmptyStep_init] \<and>
   pyval_getitem
     (EmptyStep_getattribute
        (heap (snd (snaps_getitem no_files (KInt 5) (sdat_init [''t'']))) ! 0) ''fields'')
     ''t'' = Inl TypeError \<and>
   fst (snaps_getitem no_files (KInt 999999) (sdat_init [''t''])) = Inl IndexError"
proof -
  have a: "get_istep Indexes_init 5 = Inr UNDETERMINED"
    by (simp add: get_istep_init in_range_def)
  have b: "get_istep Indexes_init 999999 = Inl IndexError"
    by (simp add: get_istep_def isnap_idx_def Indexes_init_def list_getitem_def norm_index_def)
  show ?thesis
    by (simp add: snaps_getitem_def snaps_missing_def sdat_init_def a b insert_5_None
          log_call_def no_files_def steps_item_None pyval_getitem_def)
qed

subsection \<open>Fields of a step\<close>







lemma insert_0_0:
  "insert_idx Indexes_init 0 (Some 0) =
     Inr (Indexes_init\<lparr> isnap_lists := (replicate 400 [])[0 := [0]],
                         istep_lists := (replicate 400 [])[0 := [Some 0]] \<rparr>)"
  by (simp add: insert_idx_def isnap_idx_def Indexes_init_def list_getitem_def norm_index_def
        bisect_left_def bisect_loop.simps bucket_update_def list_insert_def)


lemma snaps_0_one_snapshot:
  "snaps_getitem one_snapshot (KInt 0) (sdat_init [''vp'']) = (Inr (RStep 0), step0_resolved)"
  by (simp add: snaps_getitem_def snaps_missing_def sdat_init_def get_istep_init in_range_def
        one_snapshot_def log_call_def snaps_bind_def insert_0_0 key_of_istep_def
        steps_item_def dict_lookup_def steps_missing_def alloc_def isnap_setter_def
        step0_resolved_def Step_init_def)








section \<open>Verification of the geometry\<close>

lemma classify_frame:
  "snd (classify h par shape aspect nt) = h \<or>
   (h ''rcmb'' = Some PNone \<and> snd (classify h par shape aspect nt) = h(''rcmb'' \<mapsto> geometry_r_cmb par))"
  by (auto simp: classify_def header_getitem_def Let_def
           split: option.splits pyval.splits sum.splits bool.splits)

lemma classify_ok_frame:
  assumes "classify h par shape aspect nt = (Inr fl, h')"
  shows "h' = (if h ''rcmb'' = Some PNone then h(''rcmb'' \<mapsto> geometry_r_cmb par) else h)"
  using assms
  by (auto simp: classify_def header_getitem_def Let_def
           split: option.splits pyval.splits sum.splits bool.splits if_splits)

lemma twod_xz_total: "nts \<noteq> [] \<Longrightarrow> \<exists>t. twod_xz (nts @ [ntb]) = Inr t"
  by (cases nts) (simp_all add: twod_xz_def list_getitem_def norm_index_def)

lemma Geometry_init_unfold:
  assumes "h ''nts'' = Some (PSeq nts)" "h ''ntb'' = Some ntb" "h ''aspect'' = Some aspect"
    and "h ''e1_coord'' = Some c1" "h ''e2_coord'' = Some c2" "h ''e3_coord'' = Some c3"
    and "classify h par (py_lower (geometry_shape par)) aspect (nts @ [ntb]) = (Inr (s, c), h)"
    and "axisymmetric s c (py_lower (geometry_shape par)) (nts @ [ntb]) = Inr a"
  shows "Geometry_init np h par =
           (case Geometry_meshes np h s c c1 c2 c3 of
              Inl err \<Rightarrow> (Inl err, h)
            | Inr (cm, vm) \<Rightarrow>
                (Inr \<lparr> geom_header = h, sph = s, cyl = c, axi = a, ntot = nts @ [ntb],
                       coords = (c1, c2, c3), cart_meshes = cm, curv_meshes = vm \<rparr>, h))"
  using assms by (simp add: Geometry_init_def header_getitem_def Let_def)

lemma lower_cartesian: "py_lower ''cartesian'' = ''cartesian''"
  by (simp add: py_lower_def lower_char_def)

lemma lower_cylindrical: "py_lower ''cylindrical'' = ''cylindrical''"
  by (simp add: py_lower_def lower_char_def)

text \<open>
  Claim C6, as amended. For a header that holds \<open>nts\<close> (a non-empty sequence),
  \<open>ntb\<close>, \<open>aspect\<close> and the three coordinate vectors, the constructor leaves the
  header as it is, raises what the computation of the meshes raises on the coordinate
  vectors, and returns a geometry when that computation returns, with: for
  \<open>rcmb = -1\<close> and the shape \<open>cartesian\<close>, \<open>cartesian\<close> true and \<open>cylindrical\<close>
  and \<open>spherical\<close> false; for \<open>rcmb = 0.5\<close>, a grid that is 2-D in the XZ plane
  (\<open>nytot == 1\<close>) and the shape \<open>cylindrical\<close>, \<open>cylindrical\<close> true; for
  \<open>rcmb = 0.5\<close> and a 3-D grid, \<open>spherical\<close> true whatever the shape is.
\<close>

theorem geometry_truth_table:
  assumes "h ''nts'' = Some (PSeq nts)" and "h ''ntb'' = Some ntb"
    and "h ''aspect'' = Some aspect"
    and "h ''e1_coord'' = Some c1" and "h ''e2_coord'' = Some c2" and "h ''e3_coord'' = Some c3"
    and "nts \<noteq> []"
  shows "(h ''rcmb'' = Some (PFloat (- 1)) \<and> geometry_shape par = ''cartesian'' \<longrightarrow>
            (case np_meshgrid np c1 c2 c3 of
               Inl err \<Rightarrow> Geometry_init np h par = (Inl err, h)
             | Inr cm \<Rightarrow>
                 (\<exists>g. Geometry_init np h par = (Inr g, h) \<and>
                      cartesian g \<and> \<not> cylindrical g \<and> \<not> spherical g))) \<and>
         (h ''rcmb'' = Some (PFloat (1 / 2)) \<and> twod_xz (nts @ [ntb]) = Inr True \<and>
          geometry_shape par = ''cylindrical'' \<longrightarrow>
            (case curvilinear_meshes np c1 c2 c3 (PFloat (1 / 2)) of
               Inl err \<Rightarrow> Geometry_init np h par = (Inl err, h)
             | Inr ms \<Rightarrow>
                 (\<exists>g. Geometry_init np h par = (Inr g, h) \<and>
                      cylindrical g \<and> \<not> spherical g \<and> \<not> cartesian g))) \<and>
         (h ''rcmb'' = Some (PFloat (1 / 2)) \<and> twod_xz (nts @ [ntb]) = Inr False \<and>
          twod_yz (nts @ [ntb]) = Inr False \<longrightarrow>
            (case curvilinear_meshes np c1 c2 c3 (PFloat (1 / 2)) of
               Inl err \<Rightarrow> Geometry_init np h par = (Inl err, h)
             | Inr ms \<Rightarrow>
                 (\<exists>g. Geometry_init np h par = (Inr g, h) \<and>
                      spherical g \<and> \<not> cylindrical g \<and> \<not> cartesian g)))"
proof (intro conjI impI)
  assume a: "h ''rcmb'' = Some (PFloat (- 1)) \<and> geometry_shape par = ''cartesian''"
  from twod_xz_total[OF assms(7), of ntb] obtain t where t: "twod_xz (nts @ [ntb]) = Inr t" by blast
  have cl: "classify h par (py_lower (geometry_shape par)) aspect (nts @ [ntb]) = (Inr (False, False), h)"
    using a by (simp add: classify_def header_getitem_def)
  have ax: "axisymmetric False False (py_lower (geometry_shape par)) (nts @ [ntb]) = Inr False"
    using a t by (simp add: axisymmetric_def lower_cartesian)
  have ms: "Geometry_meshes np h False False c1 c2 c3 =
      (case np_meshgrid np c1 c2 c3 of
         Inl err \<Rightarrow> Inl err
       | Inr cm \<Rightarrow> Inr (cm, (PNone, PNone, PNone)))"
    by (simp add: Geometry_meshes_def)
  show "case np_meshgrid np c1 c2 c3 of
          Inl err \<Rightarrow> Geometry_init np h par = (Inl err, h)
        | Inr cm \<Rightarrow>
            (\<exists>g. Geometry_init np h par = (Inr g, h) \<and>
                 cartesian g \<and> \<not> cylindrical g \<and> \<not> spherical g)"
    unfolding Geometry_init_unfold[OF assms(1-6) cl ax] ms
    by (simp add: cartesian_def curvilinear_def cylindrical_def spherical_def split: sum.splits)
next
  assume a: "h ''rcmb'' = Some (PFloat (1 / 2)) \<and> twod_xz (nts @ [ntb]) = Inr True \<and>
          geometry_shape par = ''cylindrical''"
  have cl: "classify h par (py_lower (geometry_shape par)) aspect (nts @ [ntb]) = (Inr (False, True), h)"
    using a by (simp add: classify_def header_getitem_def curvilinear_cyl_def lower_cylindrical)
  have ax: "axisymmetric False True (py_lower (geometry_shape par)) (nts @ [ntb]) = Inr False"
    by (simp add: axisymmetric_def)
  have ms: "Geometry_meshes np h False True c1 c2 c3 =
      curvilinear_meshes np c1 c2 c3 (PFloat (1 / 2))"
    using a by (simp add: Geometry_meshes_def header_getitem_def)
  show "case curvilinear_meshes np c1 c2 c3 (PFloat (1 / 2)) of
          Inl err \<Rightarrow> Geometry_init np h par = (Inl err, h)
        | Inr ms \<Rightarrow>
            (\<exists>g. Geometry_init np h par = (Inr g, h) \<and>
                 cylindrical g \<and> \<not> spherical g \<and> \<not> cartesian g)"
    unfolding Geometry_init_unfold[OF assms(1-6) cl ax] ms
    by (simp add: cartesian_def curvilinear_def cylindrical_def spherical_def
          split: sum.splits prod.splits)
next
  assume a: "h ''rcmb'' = Some (PFloat (1 / 2)) \<and> twod_xz (nts @ [ntb]) = Inr False \<and>
          twod_yz (nts @ [ntb]) = Inr False"
  have cl: "classify h par (py_lower (geometry_shape par)) aspect (nts @ [ntb]) = (Inr (True, False), h)"
    using a by (simp add: classify_def header_getitem_def curvilinear_cyl_def)
  have ax: "axisymmetric True False (py_lower (geometry_shape par)) (nts @ [ntb]) = Inr False"
    by (simp add: axisymmetric_def)
  have ms: "Geometry_meshes np h True False c1 c2 c3 =
      curvilinear_meshes np c1 c2 c3 (PFloat (1 / 2))"
    using a by (simp add: Geometry_meshes_def header_getitem_def)
  show "case curvilinear_meshes np c1 c2 c3 (PFloat (1 / 2)) of
          Inl err \<Rightarrow> Geometry_init np h par = (Inl err, h)
        | Inr ms \<Rightarrow>
            (\<exists>g. Geometry_init np h par = (Inr g, h) \<and>
                 spherical g \<and> \<not> cylindrical g \<and> \<not> cartesian g)"
    unfolding Geometry_init_unfold[OF assms(1-6) cl ax] ms
    by (simp add: cartesian_def curvilinear_def cylindrical_def spherical_def
          split: sum.splits prod.splits)
qed

lemma grid_header_entries:
  "grid_header nts rcmb ''nts'' = Some (PSeq nts)"
  "grid_header nts rcmb ''ntb'' = Some (PInt 1)"
  "grid_header nts rcmb ''aspect'' = Some (PSeq [PFloat 1, PFloat 1])"
  "grid_header nts rcmb ''e1_coord'' = Some (PSeq [])"
  "grid_header nts rcmb ''e2_coord'' = Some (PSeq [])"
  "grid_header nts rcmb ''e3_coord'' = Some (PSeq [])"
  "grid_header nts rcmb ''rcmb'' = Some rcmb"
  by (simp_all add: grid_header_def)

lemma empty_meshes:
  "np_meshgrid empty_arrays (PSeq []) (PSeq []) (PSeq []) = Inr (PSeq [], PSeq [], PSeq [])"
  "curvilinear_meshes empty_arrays (PSeq []) (PSeq []) (PSeq []) rcmb =
     Inr ((PSeq [], PSeq [], PSeq []), (PSeq [], PSeq [], PSeq []))"
  by (simp_all add: empty_arrays_def curvilinear_meshes_def)

lemma no_meshes_of_None:
  "curvilinear_meshes empty_arrays (PSeq []) (PSeq []) PNone rcmb = Inl TypeError"
  by (simp add: empty_arrays_def curvilinear_meshes_def)

theorem geometry_truth_table_witness:
  "(\<exists>g. Geometry_init empty_arrays (grid_header [PInt 64, PInt 1, PInt 64] (PFloat (- 1)))
          par_cartesian =
          (Inr g, grid_header [PInt 64, PInt 1, PInt 64] (PFloat (- 1))) \<and>
        cartesian g \<and> \<not> cylindrical g \<and> \<not> spherical g) \<and>
   (\<exists>g. Geometry_init empty_arrays xz_header par_cylindrical = (Inr g, xz_header) \<and>
        cylindrical g \<and> \<not> spherical g \<and> \<not> cartesian g) \<and>
   (\<exists>g. Geometry_init empty_arrays (grid_header [PInt 64, PInt 64, PInt 64] (PFloat (1 / 2)))
          par_cartesian =
          (Inr g, grid_header [PInt 64, PInt 64, PInt 64] (PFloat (1 / 2))) \<and>
        spherical g \<and> \<not> cylindrical g \<and> \<not> cartesian g) \<and>
   Geometry_init empty_arrays (xz_header(''e3_coord'' \<mapsto> PNone)) par_cylindrical =
     (Inl TypeError, xz_header(''e3_coord'' \<mapsto> PNone))"
proof -
  have ne: "[PInt 64, PInt 1, PInt 64] \<noteq> []" "[PInt 64, PInt 64, PInt 64] \<noteq> []" by simp_all
  have t2: "twod_xz ([PInt 64, PInt 1, PInt 64] @ [PInt 1]) = Inr True"
    by (simp add: twod_xz_def list_getitem_def norm_index_def)
  have t3: "twod_xz ([PInt 64, PInt 64, PInt 64] @ [PInt 1]) = Inr False"
    "twod_yz ([PInt 64, PInt 64, PInt 64] @ [PInt 1]) = Inr False"
    by (simp_all add: twod_xz_def twod_yz_def list_getitem_def norm_index_def)
  have p: "geometry_shape par_cylindrical = ''cylindrical''"
    "geometry_shape par_cartesian = ''cartesian''"
    by (simp_all add: par_cylindrical_def par_cartesian_def)
  have row1: "\<exists>g. Geometry_init empty_arrays (grid_header [PInt 64, PInt 1, PInt 64] (PFloat (- 1)))
          par_cartesian =
          (Inr g, grid_header [PInt 64, PInt 1, PInt 64] (PFloat (- 1))) \<and>
        cartesian g \<and> \<not> cylindrical g \<and> \<not> spherical g"
    using geometry_truth_table[OF grid_header_entries(1-6)[where rcmb="PFloat (- 1)"] ne(1),
            where par=par_cartesian and np=empty_arrays] p
    by (simp add: grid_header_entries empty_meshes)
  have row2: "\<exists>g. Geometry_init empty_arrays xz_header par_cylindrical = (Inr g, xz_header) \<and>
        cylindrical g \<and> \<not> spherical g \<and> \<not> cartesian g"
    using geometry_truth_table[OF grid_header_entries(1-6)[where rcmb="PFloat (1 / 2)"] ne(1),
            where par=par_cylindrical and np=empty_arrays] p t2
    by (simp add: grid_header_entries xz_header_def empty_meshes)
  have row3: "\<exists>g. Geometry_init empty_arrays (grid_header [PInt 64, PInt 64, PInt 64] (PFloat (1 / 2)))
          par_cartesian =
          (Inr g, grid_header [PInt 64, PInt 64, PInt 64] (PFloat (1 / 2))) \<and>
        spherical g \<and> \<not> cylindrical g \<and> \<not> cartesian g"
    using geometry_truth_table[OF grid_header_entries(1-6)[where rcmb="PFloat (1 / 2)"] ne(2),
            where par=par_cartesian and np=empty_arrays] t3
    by (simp add: grid_header_entries empty_meshes)
  have e: "(xz_header(''e3_coord'' \<mapsto> PNone)) ''nts'' = Some (PSeq [PInt 64, PInt 1, PInt 64])"
    "(xz_header(''e3_coord'' \<mapsto> PNone)) ''ntb'' = Some (PInt 1)"
    "(xz_header(''e3_coord'' \<mapsto> PNone)) ''aspect'' = Some (PSeq [PFloat 1, PFloat 1])"
    "(xz_header(''e3_coord'' \<mapsto> PNone)) ''e1_coord'' = Some (PSeq [])"
    "(xz_header(''e3_coord'' \<mapsto> PNone)) ''e2_coord'' = Some (PSeq [])"
    "(xz_header(''e3_coord'' \<mapsto> PNone)) ''e3_coord'' = Some PNone"
    "(xz_header(''e3_coord'' \<mapsto> PNone)) ''rcmb'' = Some (PFloat (1 / 2))"
    by (simp_all add: xz_header_def grid_header_def)
  have row4: "Geometry_init empty_arrays (xz_header(''e3_coord'' \<mapsto> PNone)) par_cylindrical =
     (Inl TypeError, xz_header(''e3_coord'' \<mapsto> PNone))"
    using geometry_truth_table[OF e(1-6) ne(1), where par=par_cylindrical and np=empty_arrays]
      p t2 e(7)
    by (simp add: no_meshes_of_None)
  show ?thesis using row1 row2 row3 row4 by blast
qed

text \<open>
  Claim C6 as stated fails: the grid of 1 by 64 by 64 cells is 2-D in a plane (the YZ
  plane), and with \<open>rcmb = 0.5\<close> and the shape \<open>cylindrical\<close> the constructor sets
  \<open>sph\<close> and not \<open>cyl\<close>, so \<open>cylindrical\<close> is false.
\<close>

theorem geometry_yz_plane_counterexample:
  "twod_yz [PInt 1, PInt 64, PInt 64, PInt 1] = Inr True \<and>
   yz_header ''rcmb'' = Some (PFloat (1 / 2)) \<and>
   geometry_shape par_cylindrical = ''cylindrical'' \<and>
   fst (Geometry_init empty_arrays yz_header par_cylindrical) =
     Inr \<lparr> geom_header = yz_header, sph = True, cyl = False, axi = False,
           ntot = [PInt 1, PInt 64, PInt 64, PInt 1], coords = (PSeq [], PSeq [], PSeq []),
           cart_meshes = (PSeq [], PSeq [], PSeq []),
           curv_meshes = (PSeq [], PSeq [], PSeq []) \<rparr> \<and>
   \<not> cylindrical \<lparr> geom_header = yz_header, sph = True, cyl = False, axi = False,
           ntot = [PInt 1, PInt 64, PInt 64, PInt 1], coords = (PSeq [], PSeq [], PSeq []),
           cart_meshes = (PSeq [], PSeq [], PSeq []),
           curv_meshes = (PSeq [], PSeq [], PSeq []) \<rparr>"
  by (simp add: twod_yz_def twod_xz_def list_getitem_def norm_index_def yz_header_def
        grid_header_def par_cylindrical_def Geometry_init_def header_getitem_def
        lower_cylindrical classify_def curvilinear_cyl_def axisymmetric_def cylindrical_def
        Geometry_meshes_def empty_meshes)

lemma Geometry_init_frame:
  "snd (Geometry_init np h par) = h \<or>
   (h ''rcmb'' = Some PNone \<and>
    snd (Geometry_init np h par) = h(''rcmb'' \<mapsto> geometry_r_cmb par))"
proof -
  have c: "snd (classify h par shape aspect nt) = h \<or>
    (h ''rcmb'' = Some PNone \<and> snd (classify h par shape aspect nt) = h(''rcmb'' \<mapsto> geometry_r_cmb par))"
    for shape aspect nt by (rule classify_frame)
  show ?thesis
    unfolding Geometry_init_def Let_def
    by (auto split: sum.splits prod.splits dest: sym
        simp: split_beta) (use c in \<open>metis snd_conv\<close>)+
qed

lemma Geometry_init_ok_frame:
  assumes "Geometry_init np h par = (Inr g, h')"
  shows "h' = (if h ''rcmb'' = Some PNone then h(''rcmb'' \<mapsto> geometry_r_cmb par) else h) \<and>
         geom_header g = h'"
proof -
  from assms obtain nts ntsl ntb aspect s c where
    cl: "classify h par (py_lower (geometry_shape par)) aspect (ntsl @ [ntb]) = (Inr (s, c), h')"
    and gh: "geom_header g = h'"
    unfolding Geometry_init_def Let_def
    by (auto split: sum.splits prod.splits)
  from classify_ok_frame[OF cl] gh show ?thesis by simp
qed

text \<open>
  Claim C9, as amended. The constructor leaves the caller's header as it is when the
  header's \<open>rcmb\<close> is not \<open>None\<close>; it never changes an entry other than \<open>rcmb\<close>;
  and when the header's \<open>rcmb\<close> is \<open>None\<close> and a geometry is returned, the header
  is left with \<open>rcmb\<close> overwritten by the configuration's \<open>r_cmb\<close>, and that is the
  header the geometry holds.
\<close>

theorem geometry_header_frame:
  "(h ''rcmb'' \<noteq> Some PNone \<longrightarrow> snd (Geometry_init np h par) = h) \<and>
   (name \<noteq> ''rcmb'' \<longrightarrow> snd (Geometry_init np h par) name = h name) \<and>
   (h ''rcmb'' = Some PNone \<and> fst (Geometry_init np h par) = Inr g \<longrightarrow>
      snd (Geometry_init np h par) = h(''rcmb'' \<mapsto> geometry_r_cmb par) \<and>
      geom_header g = h(''rcmb'' \<mapsto> geometry_r_cmb par))"
proof (intro conjI impI)
  assume "h ''rcmb'' \<noteq> Some PNone"
  then show "snd (Geometry_init np h par) = h" using Geometry_init_frame[of np h par] by blast
next
  assume n: "name \<noteq> ''rcmb''"
  from Geometry_init_frame[of np h par] show "snd (Geometry_init np h par) name = h name"
  proof
    assume "snd (Geometry_init np h par) = h"
    then show ?thesis by simp
  next
    assume "h ''rcmb'' = Some PNone \<and>
      snd (Geometry_init np h par) = h(''rcmb'' \<mapsto> geometry_r_cmb par)"
    then show ?thesis using n by simp
  qed
next
  assume a: "h ''rcmb'' = Some PNone \<and> fst (Geometry_init np h par) = Inr g"
  then have "Geometry_init np h par = (Inr g, snd (Geometry_init np h par))"
    by (metis prod.collapse)
  from Geometry_init_ok_frame[OF this] a
  show "snd (Geometry_init np h par) = h(''rcmb'' \<mapsto> geometry_r_cmb par)"
    and "geom_header g = h(''rcmb'' \<mapsto> geometry_r_cmb par)" by simp_all
qed

lemma init_no_rcmb:
  "Geometry_init empty_arrays no_rcmb_header par_cartesian =
     (Inr \<lparr> geom_header = no_rcmb_header(''rcmb'' \<mapsto> PFloat (1 / 2)),
            sph = False, cyl = False, axi = False,
            ntot = [PInt 64, PInt 1, PInt 64, PInt 1],
            coords = (PSeq [], PSeq [], PSeq []),
            cart_meshes = (PSeq [], PSeq [], PSeq []),
            curv_meshes = (PNone, PNone, PNone) \<rparr>,
      no_rcmb_header(''rcmb'' \<mapsto> PFloat (1 / 2)))"
  by (simp add: twod_xz_def list_getitem_def norm_index_def no_rcmb_header_def
        grid_header_def par_cartesian_def Geometry_init_def header_getitem_def
        lower_cartesian classify_def axisymmetric_def Geometry_meshes_def empty_meshes)

theorem geometry_header_frame_witness:
  "snd (Geometry_init empty_arrays xz_header par_cylindrical) = xz_header \<and>
   snd (Geometry_init empty_arrays no_rcmb_header par_cartesian) ''nts'' =
     no_rcmb_header ''nts'' \<and>
   snd (Geometry_init empty_arrays no_rcmb_header par_cartesian) =
     no_rcmb_header(''rcmb'' \<mapsto> PFloat (1 / 2))"
proof -
  have a: "xz_header ''rcmb'' \<noteq> Some PNone" by (simp add: xz_header_def grid_header_def)
  have b: "no_rcmb_header ''rcmb'' = Some PNone" by (simp add: no_rcmb_header_def grid_header_def)
  have c: "fst (Geometry_init empty_arrays no_rcmb_header par_cartesian) =
     Inr \<lparr> geom_header = no_rcmb_header(''rcmb'' \<mapsto> PFloat (1 / 2)),
            sph = False, cyl = False, axi = False,
            ntot = [PInt 64, PInt 1, PInt 64, PInt 1],
            coords = (PSeq [], PSeq [], PSeq []),
            cart_meshes = (PSeq [], PSeq [], PSeq []),
            curv_meshes = (PNone, PNone, PNone) \<rparr>"
    by (simp add: init_no_rcmb)
  have d: "geometry_r_cmb par_cartesian = PFloat (1 / 2)" by (simp add: par_cartesian_def)
  show ?thesis
    using geometry_header_frame[of xz_header empty_arrays par_cylindrical "''nts''"]
      geometry_header_frame[of no_rcmb_header empty_arrays par_cartesian "''nts''"
        "\<lparr> geom_header = no_rcmb_header(''rcmb'' \<mapsto> PFloat (1 / 2)),
            sph = False, cyl = False, axi = False,
            ntot = [PInt 64, PInt 1, PInt 64, PInt 1],
            coords = (PSeq [], PSeq [], PSeq []),
            cart_meshes = (PSeq [], PSeq [], PSeq []),
            curv_meshes = (PNone, PNone, PNone) \<rparr>"] a b c d
    by simp
qed

text \<open>
  Claim C9 as stated fails: resolving a geometry from the header with \<open>rcmb = None\<close>
  and the shape \<open>cartesian\<close> overwrites the header's \<open>rcmb\<close> with 0.5 and gives a
  geometry that is not spherical; resolving again from the header it left gives a
  spherical one.
\<close>

theorem geometry_header_overwritten_counterexample:
  "no_rcmb_header ''rcmb'' = Some PNone \<and>
   snd (Geometry_init empty_arrays no_rcmb_header par_cartesian) ''rcmb'' =
     Some (PFloat (1 / 2)) \<and>
   sph (projr (fst (Geometry_init empty_arrays no_rcmb_header par_cartesian))) = False \<and>
   sph (projr (fst (Geometry_init empty_arrays
                     (snd (Geometry_init empty_arrays no_rcmb_header par_cartesian))
                     par_cartesian))) = True"
proof -
  have again: "fst (Geometry_init empty_arrays (no_rcmb_header(''rcmb'' \<mapsto> PFloat (1 / 2)))
                  par_cartesian) =
     Inr \<lparr> geom_header = no_rcmb_header(''rcmb'' \<mapsto> PFloat (1 / 2)),
            sph = True, cyl = False, axi = False,
            ntot = [PInt 64, PInt 1, PInt 64, PInt 1],
            coords = (PSeq [], PSeq [], PSeq []),
            cart_meshes = (PSeq [], PSeq [], PSeq []),
            curv_meshes = (PSeq [], PSeq [], PSeq []) \<rparr>"
    by (simp add: twod_xz_def list_getitem_def norm_index_def no_rcmb_header_def
        grid_header_def par_cartesian_def Geometry_init_def header_getitem_def
        lower_cartesian classify_def axisymmetric_def curvilinear_cyl_def np_pi_def
        Geometry_meshes_def empty_meshes)
  show ?thesis
    by (simp add: init_no_rcmb again) (simp add: no_rcmb_header_def grid_header_def)
qed

end
